theory Spec2Isabelle
  imports Complex_Main "HOL-Library.Multiset"
begin

section \<open>Python values used by the retrieval service\<close>

text \<open>
  Scores and timestamps are Python floats in the source; they are modelled as
  \<open>real\<close>, so every statement below is about the exact arithmetic the code
  spells out, not about rounding.  A Python \<open>dict\<close> keeps its keys unique and
  iterates in insertion order: it is an association list whose keys are distinct,
  with assignment replacing a present key in place and appending an absent one.
\<close>

datatype error =
    ValueError
  | KeyError
  | AttributeError
  | AssertionError
  | APIRequestError
  | HTTPException nat

fun dict_set :: "'k \<Rightarrow> 'v \<Rightarrow> ('k \<times> 'v) list \<Rightarrow> ('k \<times> 'v) list" where
  "dict_set k v [] = [(k, v)]"
| "dict_set k v ((k', v') # d) =
     (if k' = k then (k, v) # d else (k', v') # dict_set k v d)"

definition dict_update :: "('k \<times> 'v) list \<Rightarrow> ('k \<times> 'v) list \<Rightarrow> ('k \<times> 'v) list" where
  \<comment> \<open>\<open>merged.update(other)\<close>: assign every item of \<open>other\<close>, in its order\<close>
  "dict_update merged other = foldl (\<lambda>m (k, v). dict_set k v m) merged other"

definition dd_add :: "'k \<Rightarrow> real \<Rightarrow> ('k \<times> real) list \<Rightarrow> ('k \<times> real) list" where
  \<comment> \<open>\<open>d[k] += x\<close> on a \<open>defaultdict(float)\<close>\<close>
  "dd_add k x d = dict_set k ((case map_of d k of None \<Rightarrow> 0 | Some y \<Rightarrow> y) + x) d"

definition dd_incr :: "'k \<Rightarrow> ('k \<times> nat) list \<Rightarrow> ('k \<times> nat) list" where
  \<comment> \<open>\<open>d[k] += 1\<close> on a \<open>defaultdict(int)\<close>\<close>
  "dd_incr k d = dict_set k ((case map_of d k of None \<Rightarrow> 0 | Some c \<Rightarrow> c) + 1) d"

definition sorted_desc :: "('a \<Rightarrow> real) \<Rightarrow> 'a list \<Rightarrow> 'a list" where
  \<comment> \<open>\<open>sorted(xs, key=f, reverse=True)\<close>: stable, greatest key first\<close>
  "sorted_desc f xs = sort_key (\<lambda>x. - f x) xs"

section \<open>Canonical records\<close>

record canonical =
  score :: real
  url :: string
  path :: string
  video_id :: string
  frame_id :: string
  time_in_seconds :: real

type_synonym result_set = "(string \<times> canonical) list"

section \<open>Rank fusion (helpers/fusion.py)\<close>

record fusion =
  fusion_k :: int
  fusion_alpha :: real

definition RRFFusion :: "int \<Rightarrow> real \<Rightarrow> error + fusion" where
  \<comment> \<open>the constructor runs the \<open>k\<close> setter, then the \<open>alpha\<close> setter\<close>
  "RRFFusion k0 alpha0 =
     (if k0 < 1 then Inl ValueError
      else if \<not> (0 \<le> alpha0 \<and> alpha0 \<le> 1) then Inl ValueError
      else Inr \<lparr>fusion_k = k0, fusion_alpha = alpha0\<rparr>)"

fun rrf_ranks :: "fusion \<Rightarrow> nat \<Rightarrow> string list \<Rightarrow> (string \<times> real) list \<Rightarrow> (string \<times> real) list" where
  \<comment> \<open>the inner loop over \<open>enumerate(result_dict.keys())\<close>, from rank \<open>rank\<close> on\<close>
  "rrf_ranks f rank [] fused_scores = fused_scores"
| "rrf_ranks f rank (doc_id # ids) fused_scores =
     rrf_ranks f (Suc rank) ids
       (dd_add doc_id (1 / (real_of_int (fusion_k f) + real rank + 1)) fused_scores)"

definition reciprocal_rank_fusion :: "fusion \<Rightarrow> result_set list \<Rightarrow> (string \<times> real) list" where
  "reciprocal_rank_fusion f results =
     foldl (\<lambda>fused_scores result_dict. rrf_ranks f 0 (map fst result_dict) fused_scores) [] results"

definition mnz_step ::
  "(string \<times> real) list \<times> (string \<times> nat) list \<Rightarrow> string \<times> canonical \<Rightarrow>
   (string \<times> real) list \<times> (string \<times> nat) list" where
  "mnz_step acc item =
     (case acc of (sum_scores, count_scores) \<Rightarrow>
        (dd_add (fst item) (score (snd item)) sum_scores, dd_incr (fst item) count_scores))"

definition comb_mnz_fusion :: "result_set list \<Rightarrow> (string \<times> real) list" where
  "comb_mnz_fusion results =
     (case foldl (\<lambda>acc result_dict. foldl mnz_step acc result_dict) ([], []) results of
        (sum_scores, count_scores) \<Rightarrow>
          map (\<lambda>(doc_id, s).
                 (doc_id, s * real (case map_of count_scores doc_id of None \<Rightarrow> 0 | Some c \<Rightarrow> c)))
              sum_scores)"

definition calc_final_scores :: "fusion \<Rightarrow> result_set list \<Rightarrow> (string \<times> real) list" where
  \<comment> \<open>\<open>all_doc_ids\<close> is a Python set, whose iteration order is not fixed; the
      order chosen here is one of them, and \<open>fuse\<close> does not depend on it\<close>
  "calc_final_scores f results =
     (let rrf_scores = reciprocal_rank_fusion f results;
          comb_mnz_scores = comb_mnz_fusion results;
          all_doc_ids = remdups (map fst rrf_scores @ map fst comb_mnz_scores)
      in foldl (\<lambda>final_scores doc_id.
                  dict_set doc_id
                    (fusion_alpha f * (case map_of rrf_scores doc_id of None \<Rightarrow> 0 | Some s \<Rightarrow> s)
                     + (1 - fusion_alpha f) * (case map_of comb_mnz_scores doc_id of None \<Rightarrow> 0 | Some s \<Rightarrow> s))
                    final_scores)
               [] all_doc_ids)"

definition merge_results :: "result_set list \<Rightarrow> result_set" where
  "merge_results results = foldl dict_update [] results"

definition set_scores :: "(string \<times> real) list \<Rightarrow> result_set \<Rightarrow> result_set" where
  \<comment> \<open>\<open>for doc_id, score in final_scores.items(): if doc_id in merged: merged[doc_id]["score"] = score\<close>\<close>
  "set_scores final_scores merged_results =
     foldl (\<lambda>m (doc_id, s).
              (case map_of m doc_id of
                 None \<Rightarrow> m
               | Some r \<Rightarrow> dict_set doc_id (r\<lparr>score := s\<rparr>) m))
           merged_results final_scores"

definition fuse :: "fusion \<Rightarrow> result_set list \<Rightarrow> result_set" where
  "fuse f results =
     (if results = [] then []
      else sorted_desc (\<lambda>x. score (snd x))
             (set_scores (calc_final_scores f results) (merge_results results)))"

section \<open>Cluster projection (SearchService.process_results)\<close>

datatype Mode = MOMENT | VIDEO | VIDEO_AVG | TEMPORAL

text \<open>
  The fields of \<open>Image\<close> and \<open>Cluster\<close> carry a prefix, since \<open>score\<close>, \<open>path\<close>,
  \<open>url\<close> and \<open>time_in_seconds\<close> already name the fields of a canonical record.
\<close>

record Image =
  img_id :: string
  img_path :: string
  img_name :: string
  img_time_in_seconds :: real
  img_score :: real

record Cluster =
  cl_mode :: "Mode option"
  cl_image_list :: "Image list"
  cl_cluster_name :: string
  cl_url :: string

text \<open>A record of the temporal result mapping: the three events and the combined score.\<close>

record event =
  ev_id :: string
  ev_time_in_seconds :: real
  ev_score :: real
  ev_url :: string

record temporal_record =
  tr_now :: event
  tr_before :: "event option"
  tr_after :: "event option"
  tr_score :: real

text \<open>
  A cached result mapping holds canonical records or temporal records; the code tells
  them apart only by the keys it reads, and reading a key the record lacks raises
  \<open>KeyError\<close>.  \<open>_visual_search\<close> returns the empty list \<open>[]\<close> where a mapping is
  expected when it is given neither text nor image; \<open>PyList\<close> is that value.
\<close>

datatype entry = Plain canonical | Temporal temporal_record

datatype 'a pydict = PyList | PyDict "(string \<times> 'a) list"

fun py_not :: "'a pydict \<Rightarrow> bool" where
  \<comment> \<open>\<open>not result_dict\<close>\<close>
  "py_not PyList = True"
| "py_not (PyDict d) = (d = [])"

fun py_len :: "'a pydict \<Rightarrow> nat" where
  "py_len PyList = 0"
| "py_len (PyDict d) = length d"

fun py_items :: "'a pydict \<Rightarrow> error + (string \<times> 'a) list" where
  \<comment> \<open>\<open>result_dict.items()\<close>, \<open>.keys()\<close>: a list has neither\<close>
  "py_items PyList = Inl AttributeError"
| "py_items (PyDict d) = Inr d"

fun entry_score :: "entry \<Rightarrow> real" where
  \<comment> \<open>\<open>record.get("score", 0)\<close>: both kinds of record have the key\<close>
  "entry_score (Plain r) = score r"
| "entry_score (Temporal t) = tr_score t"

fun split_on :: "char \<Rightarrow> string \<Rightarrow> string list" where
  \<comment> \<open>\<open>s.split(c)\<close>\<close>
  "split_on c [] = [[]]"
| "split_on c (x # xs) =
     (if x = c then [] # split_on c xs
      else (case split_on c xs of [] \<Rightarrow> [[x]] | p # ps \<Rightarrow> (x # p) # ps))"

definition split_id :: "string \<Rightarrow> error + string \<times> string \<times> string" where
  \<comment> \<open>\<open>_, video_id, frame_id = id.split("/")\<close>\<close>
  "split_id ident =
     (case split_on (CHR ''/'') ident of
        [a, b, c] \<Rightarrow> Inr (a, b, c)
      | _ \<Rightarrow> Inl ValueError)"

definition moment_cluster :: "string \<times> canonical \<Rightarrow> Cluster" where
  "moment_cluster item =
     (case item of (ident, metadata) \<Rightarrow>
        \<lparr>cl_mode = Some MOMENT,
         cl_image_list =
           [\<lparr>img_id = ident, img_path = path metadata, img_name = ident,
             img_time_in_seconds = time_in_seconds metadata, img_score = score metadata\<rparr>],
         cl_cluster_name = video_id metadata,
         cl_url = url metadata\<rparr>)"

definition create_moment_clusters :: "result_set \<Rightarrow> Cluster list" where
  "create_moment_clusters result_dict = map moment_cluster result_dict"

definition group_step ::
  "(string \<times> Image list \<times> string) list \<Rightarrow> string \<times> canonical \<Rightarrow>
   (string \<times> Image list \<times> string) list" where
  \<comment> \<open>one pass of the grouping loop: open the video's group at its first record,
      then append the record's image to the group\<close>
  "group_step video_groups item =
     (case item of (ident, metadata) \<Rightarrow>
        (let image = \<lparr>img_id = ident, img_path = path metadata, img_name = ident,
                      img_time_in_seconds = time_in_seconds metadata,
                      img_score = score metadata\<rparr>
         in case map_of video_groups (video_id metadata) of
              None \<Rightarrow> dict_set (video_id metadata) ([image], url metadata) video_groups
            | Some (images, u) \<Rightarrow>
                dict_set (video_id metadata) (images @ [image], u) video_groups))"

definition video_groups_of :: "result_set \<Rightarrow> (string \<times> Image list \<times> string) list" where
  "video_groups_of result_dict = foldl group_step [] result_dict"

definition video_cluster :: "Mode option \<Rightarrow> string \<times> Image list \<times> string \<Rightarrow> Cluster" where
  "video_cluster m g =
     (case g of (vid, images, u) \<Rightarrow>
        \<lparr>cl_mode = m, cl_image_list = images, cl_cluster_name = vid, cl_url = u\<rparr>)"

definition avg_score :: "Image list \<Rightarrow> real" where
  \<comment> \<open>\<open>sum(img.score for img in images) / len(images)\<close>; a group is never empty\<close>
  "avg_score images = sum_list (map img_score images) / real (length images)"

definition create_video_clusters :: "result_set \<Rightarrow> Mode option \<Rightarrow> Cluster list" where
  "create_video_clusters result_dict m =
     (let video_groups = video_groups_of result_dict
      in if m = Some VIDEO then map (video_cluster m) video_groups
         else map (video_cluster m)
                (sorted_desc (\<lambda>g. avg_score (fst (snd g))) video_groups))"

definition event_image :: "string \<Rightarrow> real \<Rightarrow> event \<Rightarrow> Image" where
  "event_image keyframes_dir s e =
     \<lparr>img_id = ev_id e, img_path = keyframes_dir, img_name = ev_id e,
      img_time_in_seconds = ev_time_in_seconds e, img_score = s\<rparr>"

fun create_temporal_clusters :: "string \<Rightarrow> (string \<times> entry) list \<Rightarrow> error + Cluster list" where
  "create_temporal_clusters keyframes_dir [] = Inr []"
| "create_temporal_clusters keyframes_dir ((ident, e) # rest) =
     (case split_id ident of
        Inl err \<Rightarrow> Inl err
      | Inr _ \<Rightarrow>
         (case e of
            Plain _ \<Rightarrow> Inl KeyError
          | Temporal t \<Rightarrow>
             (let image_list =
                    [event_image keyframes_dir (tr_score t) (tr_now t)]
                    @ (case tr_before t of None \<Rightarrow> []
                       | Some b \<Rightarrow> [event_image keyframes_dir (tr_score t) b])
                    @ (case tr_after t of None \<Rightarrow> []
                       | Some a \<Rightarrow> [event_image keyframes_dir (tr_score t) a]);
                  cluster = \<lparr>cl_mode = Some VIDEO, cl_image_list = image_list,
                             cl_cluster_name = ident, cl_url = ev_url (tr_now t)\<rparr>
              in case create_temporal_clusters keyframes_dir rest of
                   Inl err \<Rightarrow> Inl err
                 | Inr clusters \<Rightarrow> Inr (cluster # clusters))))"

fun as_canonical :: "(string \<times> entry) list \<Rightarrow> error + result_set" where
  \<comment> \<open>the moment and video projections read \<open>path\<close> and \<open>video_id\<close> of every record\<close>
  "as_canonical [] = Inr []"
| "as_canonical ((ident, Plain r) # rest) =
     (case as_canonical rest of Inl err \<Rightarrow> Inl err | Inr rs \<Rightarrow> Inr ((ident, r) # rs))"
| "as_canonical ((ident, Temporal t) # rest) = Inl KeyError"

definition process_results ::
  "string \<Rightarrow> entry pydict \<Rightarrow> Mode option \<Rightarrow> bool \<Rightarrow> error + Cluster list" where
  "process_results keyframes_dir result_dict m temporal =
     (case result_dict of
        PyList \<Rightarrow> Inr []
      | PyDict d \<Rightarrow>
          if d = [] then Inr []
          else if temporal then create_temporal_clusters keyframes_dir d
          else (case as_canonical d of
                  Inl err \<Rightarrow> Inl err
                | Inr rs \<Rightarrow>
                    Inr (if m = Some MOMENT then create_moment_clusters rs
                         else create_video_clusters rs m)))"

definition plain_dict :: "result_set \<Rightarrow> entry pydict" where
  "plain_dict rs = PyDict (map (\<lambda>(ident, r). (ident, Plain r)) rs)"

section \<open>Temporal correlation (SearchService.visual_temporal_search, the matching loop)\<close>

fun select_loop ::
  "bool \<Rightarrow> string \<Rightarrow> real \<Rightarrow> real \<Rightarrow> result_set \<Rightarrow>
   (string \<times> canonical) option \<times> real \<Rightarrow> error + (string \<times> canonical) option" where
  \<comment> \<open>the loop over the before set (\<open>is_before\<close>) or the after set; the state is the
      selected record with its id, and the best score so far\<close>
  "select_loop is_before vid now_time interval [] (selected, max_score) = Inr selected"
| "select_loop is_before vid now_time interval ((cid, c) # rest) (selected, max_score) =
     (case split_id cid of
        Inl err \<Rightarrow> Inl err
      | Inr (_, c_video_id, _) \<Rightarrow>
          (let d = (if is_before then now_time - time_in_seconds c
                    else time_in_seconds c - now_time)
           in if c_video_id = vid \<and> 0 \<le> d \<and> d \<le> interval then
                (if score c > max_score
                 then select_loop is_before vid now_time interval rest (Some (cid, c), score c)
                 else select_loop is_before vid now_time interval rest (selected, max_score))
              else select_loop is_before vid now_time interval rest (selected, max_score)))"

definition select_candidate ::
  "bool \<Rightarrow> string \<Rightarrow> real \<Rightarrow> real \<Rightarrow> canonical pydict \<Rightarrow> error + (string \<times> canonical) option" where
  \<comment> \<open>\<open>selected = None; max_score = 0; for cid, c in candidates.items(): ...\<close>\<close>
  "select_candidate is_before vid now_time interval candidates =
     (case py_items candidates of
        Inl err \<Rightarrow> Inl err
      | Inr items \<Rightarrow> select_loop is_before vid now_time interval items (None, 0))"

definition to_event :: "string \<times> canonical \<Rightarrow> event" where
  "to_event item =
     (case item of (ident, r) \<Rightarrow>
        \<lparr>ev_id = ident, ev_time_in_seconds = time_in_seconds r,
         ev_score = score r, ev_url = url r\<rparr>)"

definition combined_score ::
  "canonical \<Rightarrow> (string \<times> canonical) option \<Rightarrow> (string \<times> canonical) option \<Rightarrow> real" where
  "combined_score now_result selected_before selected_after =
     (let s0 = score now_result;
          s1 = (case selected_before of None \<Rightarrow> s0 | Some (_, b) \<Rightarrow> s0 + score b)
      in case selected_after of None \<Rightarrow> s1 | Some (_, a) \<Rightarrow> s1 + score a)"

fun correlate_loop ::
  "result_set \<Rightarrow> canonical pydict \<Rightarrow> canonical pydict \<Rightarrow> real \<Rightarrow>
   (string \<times> temporal_record) list \<Rightarrow> error + (string \<times> temporal_record) list" where
  "correlate_loop [] before_result_dict after_result_dict interval final_result_dict =
     Inr final_result_dict"
| "correlate_loop ((now_id, now_result) # rest) before_result_dict after_result_dict interval
     final_result_dict =
     (case split_id now_id of
        Inl err \<Rightarrow> Inl err
      | Inr (_, vid, _) \<Rightarrow>
         (case select_candidate True vid (time_in_seconds now_result) interval before_result_dict of
            Inl err \<Rightarrow> Inl err
          | Inr selected_before \<Rightarrow>
             (case select_candidate False vid (time_in_seconds now_result) interval after_result_dict of
                Inl err \<Rightarrow> Inl err
              | Inr selected_after \<Rightarrow>
                  correlate_loop rest before_result_dict after_result_dict interval
                    (dict_set now_id
                       \<lparr>tr_now = to_event (now_id, now_result),
                        tr_before = map_option to_event selected_before,
                        tr_after = map_option to_event selected_after,
                        tr_score = combined_score now_result selected_before selected_after\<rparr>
                       final_result_dict))))"

definition temporal_correlate ::
  "canonical pydict \<Rightarrow> canonical pydict \<Rightarrow> canonical pydict \<Rightarrow> int \<Rightarrow>
   error + (string \<times> temporal_record) list" where
  \<comment> \<open>lines 811 to 872: the matching loop, then the stable sort by combined score\<close>
  "temporal_correlate now_result_dict before_result_dict after_result_dict time_interval =
     (case py_items now_result_dict of
        Inl err \<Rightarrow> Inl err
      | Inr now_items \<Rightarrow>
         (case correlate_loop now_items before_result_dict after_result_dict
                 (real_of_int time_interval) [] of
            Inl err \<Rightarrow> Inl err
          | Inr final_result_dict \<Rightarrow>
              Inr (sorted_desc (\<lambda>x. tr_score (snd x)) final_result_dict)))"

section \<open>Session cache and state handles\<close>

text \<open>
  The session cache is the Redis client of \<open>helpers/redis_client.py\<close>: a store from keys
  to values that answers nothing and stores nothing while it is not connected.  Expiry
  is not modelled: an expired key is an absent key.  A state handle is
  \<open>"0x" + secrets.token_hex(6)\<close>; the random tokens are the sequence \<open>entropy\<close>, read
  at position \<open>drawn\<close>.
\<close>

record cached =
  c_temporal :: bool
  c_results :: "entry pydict"
  c_translated_texts :: "string list option"

record state =
  cache :: "string \<rightharpoonup> cached"
  connected :: bool
  entropy :: "nat \<Rightarrow> string"
  drawn :: nat

definition cache_key :: "string \<Rightarrow> string" where
  "cache_key state_id = ''search_'' @ state_id"

definition generate_state_id :: "state \<Rightarrow> string \<times> state" where
  "generate_state_id st = (''0x'' @ entropy st (drawn st), st\<lparr>drawn := Suc (drawn st)\<rparr>)"

definition cache_result :: "string \<Rightarrow> cached \<Rightarrow> state \<Rightarrow> bool \<times> state" where
  "cache_result state_id results st =
     (if connected st
      then (True, st\<lparr>cache := (cache st)(cache_key state_id \<mapsto> results)\<rparr>)
      else (False, st))"

definition get_cached_result :: "string \<Rightarrow> state \<Rightarrow> cached option" where
  "get_cached_result state_id st =
     (if connected st then cache st (cache_key state_id) else None)"

definition py_str :: "string option \<Rightarrow> string" where
  \<comment> \<open>the text an f-string gives an optional string\<close>
  "py_str s = (case s of None \<Rightarrow> ''None'' | Some t \<Rightarrow> t)"

section \<open>External collaborators\<close>

text \<open>
  A backend call either raises \<open>APIRequestError\<close> (the HTTP client wraps every failure
  of the request in it), or answers with a body the code cannot read (any other
  exception), or answers with results.  Request ids are left out of the payloads.
\<close>

datatype 'a reply = ApiError | Malformed | Results 'a

datatype query =
    QueryText "string list"
  | QueryVisual "string list option" "string list option"
  | QueryIds "string list" "real list"

record milvus_payload =
  collection_name :: string
  top_k :: int
  query_data :: query

record elastic_payload =
  index_name :: string
  ocr_text :: "string list option"
  transcription_text :: "string list option"
  description_text :: "string list option"
  ep_size :: int
  ep_from :: int
  query_ids :: "string list option"

record hit =
  hit_id :: string
  hit_url :: string
  hit_time_in_seconds :: real
  hit_score :: real

record env =
  KEYFRAMES_DIR :: string
  ELASTIC_INDEX_NAME :: string
  DEFAULT_MILVUS_COLLECTION :: string
  ENSEMBLE_COLLECTIONS :: "string list"
  default_top_k :: int
  translation :: "(string \<Rightarrow> string reply) option"
  milvus :: "milvus_payload \<Rightarrow> (string \<times> real \<times> string \<times> real) list reply"
  elastic :: "elastic_payload \<Rightarrow> hit list reply"

definition default_fusion :: fusion where
  \<comment> \<open>\<open>self.fusion = RRFFusion()\<close>\<close>
  "default_fusion = \<lparr>fusion_k = 60, fusion_alpha = 0.1\<rparr>"

section \<open>Requests and responses\<close>

record Filters =
  ocr :: "string list"
  subtitle :: "string list"
  description :: "string list"

record GeneralResponse =
  status :: string
  r_mode :: "Mode option"
  r_results :: "Cluster list"
  r_state_id :: string
  r_translated_texts :: "string list"

record ChatFilter =
  cf_mode :: "Mode option"
  cf_state_id :: "string option"
  cf_filters :: Filters
  cf_top_k :: int

record SearchText =
  st_text :: string
  st_mode :: Mode
  st_collection :: string
  st_state_id :: "string option"
  st_top_k :: int
  st_translate_mode :: bool

record SearchFeedback =
  fb_collection :: string
  fb_positive :: "string list"
  fb_negative :: "string list"
  fb_state_id :: string
  fb_mode :: Mode
  fb_positive_weight :: real
  fb_negative_weight :: real

record TemporalEvent =
  te_text :: "string option"
  te_image :: "string option"
  te_filters :: "Filters option"

record SearchTemporal =
  tq_collection :: string
  tq_now :: "TemporalEvent option"
  tq_before :: "TemporalEvent option"
  tq_after :: "TemporalEvent option"
  tq_time_interval :: int
  tq_translate_mode :: bool

section \<open>The orchestrator (services/search_service.py, routers/chat.py)\<close>

definition translate_text :: "env \<Rightarrow> string \<Rightarrow> error + string" where
  \<comment> \<open>the assertion on the endpoint stands before the \<open>try\<close>; every exception of the
      request and of reading its answer is caught and gives the text back\<close>
  "translate_text e text =
     (case translation e of
        None \<Rightarrow> Inl AssertionError
      | Some backend \<Rightarrow>
          (case backend text of
             Results translated \<Rightarrow> Inr translated
           | ApiError \<Rightarrow> Inr text
           | Malformed \<Rightarrow> Inr text))"

fun format_loop ::
  "string \<Rightarrow> (string \<times> real \<times> string \<times> real) list \<Rightarrow> result_set \<Rightarrow> error + result_set" where
  "format_loop keyframes_dir [] result_dict = Inr result_dict"
| "format_loop keyframes_dir ((ident, s, u, t) # rows) result_dict =
     (case split_id ident of
        Inl err \<Rightarrow> Inl err
      | Inr (_, vid, fid) \<Rightarrow>
          format_loop keyframes_dir rows
            (dict_set ident
               \<lparr>score = s, url = u, path = keyframes_dir, video_id = vid, frame_id = fid,
                time_in_seconds = t\<rparr>
               result_dict))"

definition format_milvus_result ::
  "env \<Rightarrow> (string \<times> real \<times> string \<times> real) list \<Rightarrow> error + result_set" where
  "format_milvus_result e rows = format_loop (KEYFRAMES_DIR e) rows []"

definition whitespace :: "char \<Rightarrow> bool" where
  \<comment> \<open>the one-byte characters \<open>str.strip()\<close> removes\<close>
  "whitespace c = (of_char c \<in> {9, 10, 11, 12, 13, 28, 29, 30, 31, 32 :: nat})"

definition blank :: "string \<Rightarrow> bool" where
  \<comment> \<open>\<open>not text.strip()\<close>\<close>
  "blank text = list_all whitespace text"

fun gather :: "(error + 'a) list \<Rightarrow> error + 'a list" where
  \<comment> \<open>\<open>asyncio.gather\<close>: all results in order, or the error of a failing member (here
      the first in order)\<close>
  "gather [] = Inr []"
| "gather (Inl err # rest) = Inl err"
| "gather (Inr x # rest) = (case gather rest of Inl err \<Rightarrow> Inl err | Inr xs \<Rightarrow> Inr (x # xs))"

fun dicts_of :: "'a pydict list \<Rightarrow> error + (string \<times> 'a) list list" where
  "dicts_of [] = Inr []"
| "dicts_of (PyList # rest) = Inl AttributeError"
| "dicts_of (PyDict d # rest) =
     (case dicts_of rest of Inl err \<Rightarrow> Inl err | Inr ds \<Rightarrow> Inr (d # ds))"

definition fuse_members :: "canonical pydict list \<Rightarrow> error + result_set" where
  \<comment> \<open>\<open>self.fusion.fuse(results)\<close> on what the members returned: the rank loop calls
      \<open>.keys()\<close> on each of them\<close>
  "fuse_members results =
     (case dicts_of results of Inl err \<Rightarrow> Inl err | Inr ds \<Rightarrow> Inr (fuse default_fusion ds))"

definition inner_text_search :: "env \<Rightarrow> string \<Rightarrow> string \<Rightarrow> int \<Rightarrow> error + result_set" where
  \<comment> \<open>\<open>SearchService._text_search\<close>\<close>
  "inner_text_search e text collection k =
     (if blank text then Inl ValueError
      else (case milvus e \<lparr>collection_name = collection, top_k = k,
                           query_data = QueryText [text]\<rparr> of
              ApiError \<Rightarrow> Inl APIRequestError
            | Malformed \<Rightarrow> Inr []
            | Results rows \<Rightarrow>
                (case format_milvus_result e rows of Inl _ \<Rightarrow> Inr [] | Inr d \<Rightarrow> Inr d)))"

definition ensemble_text_search :: "env \<Rightarrow> string \<Rightarrow> string \<Rightarrow> int \<Rightarrow> error + result_set" where
  "ensemble_text_search e text collection k =
     (if ENSEMBLE_COLLECTIONS e = [] then inner_text_search e text collection k
      else (case gather (map (\<lambda>c. inner_text_search e text c k) (ENSEMBLE_COLLECTIONS e)) of
              Inl err \<Rightarrow> Inl err
            | Inr results \<Rightarrow> Inr (fuse default_fusion results)))"

definition truthy :: "string option \<Rightarrow> bool" where
  \<comment> \<open>the truth value of an optional string: present and not empty\<close>
  "truthy s = (case s of None \<Rightarrow> False | Some t \<Rightarrow> t \<noteq> [])"

fun text_of :: "string option \<Rightarrow> string" where
  \<comment> \<open>the string of an optional string; read only where \<open>truthy\<close> holds\<close>
  "text_of None = []"
| "text_of (Some t) = t"

definition inner_visual_search ::
  "env \<Rightarrow> string \<Rightarrow> string option \<Rightarrow> string list \<Rightarrow> error + canonical pydict" where
  \<comment> \<open>\<open>SearchService._visual_search\<close>\<close>
  "inner_visual_search e collection text base64_images =
     (if \<not> truthy text \<and> base64_images = [] then Inr PyList
      else (case milvus e
                   \<lparr>collection_name = collection, top_k = default_top_k e,
                    query_data =
                      QueryVisual (if truthy text then Some [text_of text] else None)
                                  (if base64_images \<noteq> [] then Some base64_images else None)\<rparr> of
              ApiError \<Rightarrow> Inl APIRequestError
            | Malformed \<Rightarrow> Inr (PyDict [])
            | Results rows \<Rightarrow>
                (case format_milvus_result e rows of
                   Inl _ \<Rightarrow> Inr (PyDict [])
                 | Inr d \<Rightarrow> Inr (PyDict d))))"

definition ensemble_visual_search ::
  "env \<Rightarrow> string \<Rightarrow> string option \<Rightarrow> string list \<Rightarrow> error + canonical pydict" where
  "ensemble_visual_search e collection text base64_images =
     (if ENSEMBLE_COLLECTIONS e = []
      then inner_visual_search e
             (if collection = [] then DEFAULT_MILVUS_COLLECTION e else collection)
             text base64_images
      else (case gather (map (\<lambda>c. inner_visual_search e c text base64_images)
                           (ENSEMBLE_COLLECTIONS e)) of
              Inl err \<Rightarrow> Inl err
            | Inr results \<Rightarrow>
                (case fuse_members results of Inl err \<Rightarrow> Inl err | Inr d \<Rightarrow> Inr (PyDict d))))"

fun plain_py :: "canonical pydict \<Rightarrow> entry pydict" where
  "plain_py PyList = PyList"
| "plain_py (PyDict d) = plain_dict d"

definition filter_payload :: "env \<Rightarrow> 'a pydict \<Rightarrow> Filters \<Rightarrow> int \<Rightarrow> elastic_payload" where
  \<comment> \<open>the request \<open>apply_filters\<close> builds\<close>
  "filter_payload e current_result_dict filters k =
     (let ids = (if py_len current_result_dict > 0
                 then (case current_result_dict of PyList \<Rightarrow> [] | PyDict d \<Rightarrow> map fst d)
                 else []);
          sz = (if py_len current_result_dict > 0 then int (length ids) else k)
      in \<lparr>index_name = ELASTIC_INDEX_NAME e,
          ocr_text = (if ocr filters \<noteq> [] then Some (ocr filters) else None),
          transcription_text = (if subtitle filters \<noteq> [] then Some (subtitle filters) else None),
          description_text = (if description filters \<noteq> [] then Some (description filters) else None),
          ep_size = sz,
          ep_from = 0,
          query_ids = (if length ids > 0 then Some ids else None)\<rparr>)"

fun prior_score :: "entry pydict \<Rightarrow> string \<Rightarrow> error + real" where
  \<comment> \<open>\<open>current_result_dict.get(id, {}).get("score", 0)\<close>\<close>
  "prior_score PyList ident = Inl AttributeError"
| "prior_score (PyDict d) ident =
     Inr (case map_of d ident of None \<Rightarrow> 0 | Some r \<Rightarrow> entry_score r)"

fun filter_loop :: "env \<Rightarrow> entry pydict \<Rightarrow> hit list \<Rightarrow> result_set \<Rightarrow> error + result_set" where
  "filter_loop e current_result_dict [] result_dict = Inr result_dict"
| "filter_loop e current_result_dict (h # hs) result_dict =
     (case split_id (hit_id h) of
        Inl err \<Rightarrow> Inl err
      | Inr (_, vid, fid) \<Rightarrow>
          (case prior_score current_result_dict (hit_id h) of
             Inl err \<Rightarrow> Inl err
           | Inr p \<Rightarrow>
               filter_loop e current_result_dict hs
                 (dict_set (hit_id h)
                    \<lparr>score = hit_score h + p, url = hit_url h, path = KEYFRAMES_DIR e,
                     video_id = vid, frame_id = fid,
                     time_in_seconds = hit_time_in_seconds h\<rparr>
                    result_dict)))"

definition apply_filters :: "env \<Rightarrow> entry pydict \<Rightarrow> Filters \<Rightarrow> int \<Rightarrow> error + result_set" where
  "apply_filters e current_result_dict filters k =
     (case elastic e (filter_payload e current_result_dict filters k) of
        ApiError \<Rightarrow> Inr []
      | Malformed \<Rightarrow> Inr []
      | Results elastic_results \<Rightarrow> filter_loop e current_result_dict elastic_results [])"

definition success :: "Mode option \<Rightarrow> string \<Rightarrow> Cluster list \<Rightarrow> string list \<Rightarrow> GeneralResponse" where
  "success m state_id clusters translated =
     \<lparr>status = ''success'', r_mode = m, r_results = clusters, r_state_id = state_id,
      r_translated_texts = translated\<rparr>"

definition filter_chat :: "env \<Rightarrow> ChatFilter \<Rightarrow> state \<Rightarrow> (error + GeneralResponse) \<times> state" where
  "filter_chat e request st =
     (let cached_result = get_cached_result (py_str (cf_state_id request)) st;
          current_result_dict =
            (case cached_result of None \<Rightarrow> PyDict [] | Some c \<Rightarrow> c_results c)
      in case apply_filters e current_result_dict (cf_filters request) (cf_top_k request) of
           Inl err \<Rightarrow> (Inl (HTTPException 500), st)
         | Inr result_dict \<Rightarrow>
            (case process_results (KEYFRAMES_DIR e) (plain_dict result_dict) (cf_mode request) False of
               Inl err \<Rightarrow> (Inl (HTTPException 500), st)
             | Inr clusters \<Rightarrow>
                (case generate_state_id st of (new_state_id, st1) \<Rightarrow>
                  (case cache_result new_state_id
                          \<lparr>c_temporal = (case cached_result of None \<Rightarrow> False
                                          | Some c \<Rightarrow> c_temporal c),
                           c_results = plain_dict result_dict,
                           c_translated_texts = None\<rparr> st1 of
                     (_, st2) \<Rightarrow>
                       (Inr (success (cf_mode request) new_state_id clusters []), st2)))))"

definition restore_chat :: "env \<Rightarrow> Mode \<Rightarrow> string \<Rightarrow> state \<Rightarrow> (error + GeneralResponse) \<times> state" where
  "restore_chat e m state_id st =
     (case get_cached_result state_id st of
        Some c \<Rightarrow>
          (case process_results (KEYFRAMES_DIR e) (c_results c) (Some m) (c_temporal c) of
             Inl err \<Rightarrow> (Inl (HTTPException 500), st)
           | Inr clusters \<Rightarrow> (Inr (success (Some m) state_id clusters []), st))
      | None \<Rightarrow> (Inr (success (Some m) state_id [] []), st))"

definition change_clustering_mode ::
  "env \<Rightarrow> string \<Rightarrow> Mode \<Rightarrow> state \<Rightarrow> (error + string \<times> Cluster list) \<times> state" where
  "change_clustering_mode e state_id new_mode st =
     (if state_id = [] then (Inl ValueError, st)
      else (case get_cached_result state_id st of
              None \<Rightarrow> (Inl ValueError, st)
            | Some c \<Rightarrow>
               (case process_results (KEYFRAMES_DIR e) (c_results c) (Some new_mode) (c_temporal c) of
                  Inl err \<Rightarrow> (Inl err, st)
                | Inr clusters \<Rightarrow>
                   (case generate_state_id st of (new_state_id, st1) \<Rightarrow>
                     (case cache_result new_state_id c st1 of
                        (_, st2) \<Rightarrow> (Inr (new_state_id, clusters), st2))))))"

definition change_cluster :: "env \<Rightarrow> string \<Rightarrow> Mode \<Rightarrow> state \<Rightarrow> (error + GeneralResponse) \<times> state" where
  \<comment> \<open>the route of \<open>routers/settings.py\<close>\<close>
  "change_cluster e state_id m st =
     (case change_clustering_mode e state_id m st of
        (Inl err, st') \<Rightarrow> (Inl (HTTPException 500), st')
      | (Inr (new_state_id, clusters), st') \<Rightarrow>
          (Inr (success (Some m) new_state_id clusters []), st'))"

definition store_and_project ::
  "env \<Rightarrow> cached \<Rightarrow> Mode option \<Rightarrow> bool \<Rightarrow> string list \<Rightarrow> state \<Rightarrow>
   (error + GeneralResponse) \<times> state" where
  \<comment> \<open>the common tail of the searches: a new handle, the write, the projection\<close>
  "store_and_project e cached_results m temporal translated st =
     (case generate_state_id st of (new_state_id, st1) \<Rightarrow>
       (case cache_result new_state_id cached_results st1 of (_, st2) \<Rightarrow>
         (case process_results (KEYFRAMES_DIR e) (c_results cached_results) m temporal of
            Inl err \<Rightarrow> (Inl err, st2)
          | Inr clusters \<Rightarrow> (Inr (success m new_state_id clusters translated), st2))))"

definition text_search :: "env \<Rightarrow> SearchText \<Rightarrow> state \<Rightarrow> (error + GeneralResponse) \<times> state" where
  "text_search e request st =
     (if blank (st_text request) then (Inl ValueError, st)
      else
       (case (if truthy (st_state_id request) then (text_of (st_state_id request), st)
              else generate_state_id st) of
          (state_id, st0) \<Rightarrow>
           (case get_cached_result state_id st0 of
              Some c \<Rightarrow>
                (case process_results (KEYFRAMES_DIR e) (c_results c) (Some (st_mode request)) False of
                   Inl err \<Rightarrow> (Inl err, st0)
                 | Inr clusters \<Rightarrow>
                    (case c_translated_texts c of
                       None \<Rightarrow> (Inl KeyError, st0)
                     | Some translated \<Rightarrow>
                         (Inr (success (Some (st_mode request)) state_id clusters translated), st0)))
            | None \<Rightarrow>
                (case (if st_translate_mode request
                       then (case translate_text e (st_text request) of
                               Inl err \<Rightarrow> Inl err
                             | Inr t \<Rightarrow> Inr (t, [t]))
                       else Inr (st_text request, [])) of
                   Inl err \<Rightarrow> (Inl err, st0)
                 | Inr (text, translated) \<Rightarrow>
                    (case (if st_collection request = ''ensemble''
                           then ensemble_text_search e text (st_collection request) (st_top_k request)
                           else inner_text_search e text (st_collection request) (st_top_k request)) of
                       Inl err \<Rightarrow> (Inl err, st0)
                     | Inr result_dict \<Rightarrow>
                         store_and_project e
                           \<lparr>c_temporal = False, c_results = plain_dict result_dict,
                            c_translated_texts = None\<rparr>
                           (Some (st_mode request)) False translated st0)))))"

definition visual_search ::
  "env \<Rightarrow> string \<Rightarrow> Mode \<Rightarrow> string option \<Rightarrow> string list \<Rightarrow> state \<Rightarrow>
   (error + GeneralResponse) \<times> state" where
  "visual_search e collection m text base64_images st =
     (case (if collection = ''ensemble''
            then ensemble_visual_search e collection text base64_images
            else inner_visual_search e collection text base64_images) of
        Inl err \<Rightarrow> (Inl err, st)
      | Inr result_dict \<Rightarrow>
          store_and_project e
            \<lparr>c_temporal = False, c_results = plain_py result_dict, c_translated_texts = None\<rparr>
            (Some m) False [] st)"

definition single_relevance_feedback :: "env \<Rightarrow> SearchFeedback \<Rightarrow> string \<Rightarrow> error + result_set" where
  "single_relevance_feedback e request collection =
     (case milvus e
             \<lparr>collection_name = collection, top_k = default_top_k e,
              query_data =
                QueryIds (fb_positive request @ fb_negative request)
                  (replicate (length (fb_positive request)) (fb_positive_weight request)
                   @ replicate (length (fb_negative request)) (fb_negative_weight request))\<rparr> of
        ApiError \<Rightarrow> Inl APIRequestError
      | Malformed \<Rightarrow> Inr []
      | Results rows \<Rightarrow> (if rows = [] then Inr [] else format_milvus_result e rows))"

definition ensemble_relevance_feedback :: "env \<Rightarrow> SearchFeedback \<Rightarrow> error + result_set" where
  "ensemble_relevance_feedback e request =
     (if ENSEMBLE_COLLECTIONS e = [] then Inr []
      else (case gather (map (single_relevance_feedback e request) (ENSEMBLE_COLLECTIONS e)) of
              Inl err \<Rightarrow> Inl err
            | Inr results \<Rightarrow> Inr (fuse default_fusion results)))"

definition relevance_feedback ::
  "env \<Rightarrow> SearchFeedback \<Rightarrow> state \<Rightarrow> (error + GeneralResponse) \<times> state" where
  "relevance_feedback e request st =
     (case (if fb_collection request = ''ensemble''
            then ensemble_relevance_feedback e request
            else single_relevance_feedback e request (fb_collection request)) of
        Inl err \<Rightarrow> (Inl err, st)
      | Inr result_dict \<Rightarrow>
          if result_dict = []
          then (Inr (success (Some (fb_mode request)) (fb_state_id request) [] []), st)
          else store_and_project e
                 \<lparr>c_temporal = False, c_results = plain_dict result_dict,
                  c_translated_texts = None\<rparr>
                 (Some (fb_mode request)) False [] st)"

definition translate_event ::
  "env \<Rightarrow> TemporalEvent option \<Rightarrow> string list \<Rightarrow> error + TemporalEvent option \<times> string list" where
  \<comment> \<open>\<open>if request.now and request.now.text: ...\<close>, and the same for before and after\<close>
  "translate_event e ev translated =
     (case ev of
        None \<Rightarrow> Inr (None, translated)
      | Some v \<Rightarrow>
          if truthy (te_text v)
          then (case translate_text e (text_of (te_text v)) of
                  Inl err \<Rightarrow> Inl err
                | Inr t \<Rightarrow> Inr (Some (v\<lparr>te_text := Some t\<rparr>), translated @ [t]))
          else Inr (Some v, translated))"

definition search_event :: "env \<Rightarrow> string \<Rightarrow> TemporalEvent \<Rightarrow> error + canonical pydict" where
  \<comment> \<open>\<open>search_now\<close>, \<open>search_before\<close>, \<open>search_after\<close> for an event that is present\<close>
  "search_event e collection ev =
     (case inner_visual_search e collection (te_text ev)
             (if truthy (te_image ev) then [text_of (te_image ev)] else []) of
        Inl err \<Rightarrow> Inl err
      | Inr result \<Rightarrow>
          (case te_filters ev of
             None \<Rightarrow> Inr result
           | Some filters \<Rightarrow>
               (case apply_filters e (plain_py result) filters 1024 of
                  Inl err \<Rightarrow> Inl err
                | Inr d \<Rightarrow> Inr (PyDict d))))"

definition temporal_results ::
  "env \<Rightarrow> SearchTemporal \<Rightarrow> error + (string \<times> temporal_record) list \<times> string list" where
  \<comment> \<open>from the translations to the sorted mapping (lines 742 to 872); a request
      without a now event has been refused before, and \<open>gather\<close> returns one result
      per search, so the indices are in range\<close>
  "temporal_results e request =
     (case (if tq_translate_mode request
            then (case translate_event e (tq_now request) [] of
                    Inl err \<Rightarrow> Inl err
                  | Inr (n, t1) \<Rightarrow>
                     (case translate_event e (tq_before request) t1 of
                        Inl err \<Rightarrow> Inl err
                      | Inr (b, t2) \<Rightarrow>
                         (case translate_event e (tq_after request) t2 of
                            Inl err \<Rightarrow> Inl err
                          | Inr (a, t3) \<Rightarrow> Inr (n, b, a, t3))))
            else Inr (tq_now request, tq_before request, tq_after request, [])) of
        Inl err \<Rightarrow> Inl err
      | Inr (None, b, a, translated) \<Rightarrow> Inl ValueError
      | Inr (Some now_event, b, a, translated) \<Rightarrow>
         (case gather
                 ([search_event e (tq_collection request) now_event]
                  @ (case b of None \<Rightarrow> [] | Some v \<Rightarrow> [search_event e (tq_collection request) v])
                  @ (case a of None \<Rightarrow> [] | Some v \<Rightarrow> [search_event e (tq_collection request) v])) of
            Inl err \<Rightarrow> Inl err
          | Inr results \<Rightarrow>
             (let now_result_dict = results ! 0;
                  before_result_dict = (if b = None then PyDict [] else results ! 1);
                  after_result_dict =
                    (if a = None then PyDict []
                     else if b = None then results ! 1 else results ! 2)
              in case temporal_correlate now_result_dict before_result_dict after_result_dict
                        (tq_time_interval request) of
                   Inl err \<Rightarrow> Inl err
                 | Inr sorted_result_dict \<Rightarrow> Inr (sorted_result_dict, translated))))"

definition visual_temporal_search ::
  "env \<Rightarrow> SearchTemporal \<Rightarrow> state \<Rightarrow> (error + GeneralResponse) \<times> state" where
  "visual_temporal_search e request st =
     (if tq_now request = None then (Inl ValueError, st)
      else
       (case generate_state_id st of (state_id, st0) \<Rightarrow>
         (case get_cached_result state_id st0 of
            Some c \<Rightarrow>
              (case process_results (KEYFRAMES_DIR e) (c_results c) (Some VIDEO) True of
                 Inl err \<Rightarrow> (Inl err, st0)
               | Inr clusters \<Rightarrow>
                  (case c_translated_texts c of
                     None \<Rightarrow> (Inl KeyError, st0)
                   | Some translated \<Rightarrow>
                       (Inr (success (Some VIDEO) state_id clusters translated), st0)))
          | None \<Rightarrow>
              (case temporal_results e request of
                 Inl err \<Rightarrow> (Inl err, st0)
               | Inr (sorted_result_dict, translated) \<Rightarrow>
                  (let results = PyDict (map (\<lambda>(ident, t). (ident, Temporal t)) sorted_result_dict)
                   in case process_results (KEYFRAMES_DIR e) results (Some VIDEO) True of
                        Inl err \<Rightarrow> (Inl err, st0)
                      | Inr clusters \<Rightarrow>
                         (case generate_state_id st0 of (new_state_id, st1) \<Rightarrow>
                           (case cache_result new_state_id
                                   \<lparr>c_temporal = True, c_results = results,
                                    c_translated_texts = Some translated\<rparr> st1 of
                              (_, st2) \<Rightarrow>
                                (Inr (success (Some VIDEO) new_state_id clusters translated),
                                 st2))))))))"

text \<open>The operations that touch the session cache, as one type.\<close>

datatype operation =
    TextSearch SearchText
  | VisualSearch string Mode "string option" "string list"
  | RelevanceFeedback SearchFeedback
  | TemporalSearch SearchTemporal
  | ApplyFilters ChatFilter
  | ChangeClusteringMode string Mode
  | RestoreState Mode string

fun run :: "env \<Rightarrow> operation \<Rightarrow> state \<Rightarrow> (error + GeneralResponse) \<times> state" where
  "run e (TextSearch request) st = text_search e request st"
| "run e (VisualSearch collection m text images) st = visual_search e collection m text images st"
| "run e (RelevanceFeedback request) st = relevance_feedback e request st"
| "run e (TemporalSearch request) st = visual_temporal_search e request st"
| "run e (ApplyFilters request) st = filter_chat e request st"
| "run e (ChangeClusteringMode state_id m) st = change_cluster e state_id m st"
| "run e (RestoreState m state_id) st = restore_chat e m state_id st"

section \<open>Notions used to state the properties\<close>

definition failed :: "'a reply \<Rightarrow> bool" where
  \<comment> \<open>the backend was unreachable or answered with an error or an unreadable body\<close>
  "failed r = (case r of Results _ \<Rightarrow> False | ApiError \<Rightarrow> True | Malformed \<Rightarrow> True)"

definition example_env :: env where
  \<comment> \<open>an environment whose translation and lexical backends are down\<close>
  "example_env =
     \<lparr>KEYFRAMES_DIR = ''keyframes'', ELASTIC_INDEX_NAME = ''frames'',
      DEFAULT_MILVUS_COLLECTION = ''clip'', ENSEMBLE_COLLECTIONS = [],
      default_top_k = 1024, translation = Some (\<lambda>_. ApiError),
      milvus = (\<lambda>_. Results []), elastic = (\<lambda>_. ApiError)\<rparr>"

definition example_state :: state where
  \<comment> \<open>an empty, connected cache; every random token is the same\<close>
  "example_state =
     \<lparr>cache = Map.empty, connected = True, entropy = (\<lambda>_. ''a1b2c3d4e5f6''), drawn = 0\<rparr>"

definition recovering :: "(string \<Rightarrow> string reply) \<Rightarrow> string \<Rightarrow> string reply" where
  \<comment> \<open>a translation backend that never fails: where \<open>backend\<close> fails, it answers
      with the text it was given\<close>
  "recovering backend text =
     (case backend text of
        Results t \<Rightarrow> Results t
      | ApiError \<Rightarrow> Results text
      | Malformed \<Rightarrow> Results text)"

definition example_query :: SearchText where
  \<comment> \<open>a text query with translation switched on\<close>
  "example_query =
     \<lparr>st_text = ''xin chao'', st_mode = MOMENT, st_collection = ''clip'',
      st_state_id = None, st_top_k = 10, st_translate_mode = True\<rparr>"

definition prior_results :: "ChatFilter \<Rightarrow> state \<Rightarrow> entry pydict" where
  \<comment> \<open>the result set \<open>filter_chat\<close> hands to \<open>apply_filters\<close>: the one stored under the
      request's handle, or the empty mapping\<close>
  "prior_results request st =
     (case get_cached_result (py_str (cf_state_id request)) st of
        None \<Rightarrow> PyDict []
      | Some c \<Rightarrow> c_results c)"

fun py_keys :: "'a pydict \<Rightarrow> string list" where
  \<comment> \<open>the ids of a result mapping, in its order\<close>
  "py_keys PyList = []"
| "py_keys (PyDict d) = map fst d"

fun prior_or_zero :: "entry pydict \<Rightarrow> string \<Rightarrow> real" where
  \<comment> \<open>the prior score of an id, 0 when the prior set does not have the id\<close>
  "prior_or_zero PyList ident = 0"
| "prior_or_zero (PyDict d) ident = (case map_of d ident of None \<Rightarrow> 0 | Some r \<Rightarrow> entry_score r)"

definition example_filter :: ChatFilter where
  \<comment> \<open>a filter request without a prior handle\<close>
  "example_filter =
     \<lparr>cf_mode = Some VIDEO, cf_state_id = None,
      cf_filters = \<lparr>ocr = [''news''], subtitle = [], description = []\<rparr>,
      cf_top_k = 1024\<rparr>"

definition example_prior :: "entry pydict" where
  \<comment> \<open>a prior result set of two records\<close>
  "example_prior =
     PyDict
       [(''L01/V001/10'',
         Plain \<lparr>score = 1/2, url = ''u1'', path = ''keyframes'', video_id = ''V001'',
                frame_id = ''10'', time_in_seconds = 4\<rparr>),
        (''L01/V002/7'',
         Plain \<lparr>score = 1/4, url = ''u2'', path = ''keyframes'', video_id = ''V002'',
                frame_id = ''7'', time_in_seconds = 9\<rparr>)]"

definition example_hits_env :: env where
  \<comment> \<open>the example environment with a lexical backend that answers with one hit\<close>
  "example_hits_env =
     example_env
       \<lparr>elastic :=
          (\<lambda>_. Results [\<lparr>hit_id = ''L01/V001/10'', hit_url = ''u1'',
                          hit_time_in_seconds = 4, hit_score = 2\<rparr>])\<rparr>"

definition video_of :: "string \<Rightarrow> string" where
  \<comment> \<open>the video component of an id \<open>prefix/video/frame\<close>\<close>
  "video_of ident = (case split_id ident of Inl _ \<Rightarrow> [] | Inr (_, v, _) \<Rightarrow> v)"

definition in_window :: "bool \<Rightarrow> string \<Rightarrow> real \<Rightarrow> real \<Rightarrow> string \<times> canonical \<Rightarrow> bool" where
  \<comment> \<open>the candidate has the video \<open>vid\<close> and lies within the interval before
      (or after) the now record\<close>
  "in_window is_before vid now_time interval item =
     (case split_id (fst item) of
        Inl _ \<Rightarrow> False
      | Inr (_, v, _) \<Rightarrow>
          v = vid \<and>
          (if is_before
           then 0 \<le> now_time - time_in_seconds (snd item) \<and>
                now_time - time_in_seconds (snd item) \<le> interval
           else 0 \<le> time_in_seconds (snd item) - now_time \<and>
                time_in_seconds (snd item) - now_time \<le> interval))"

fun first_max :: "(string \<times> canonical) list \<Rightarrow> (string \<times> canonical) option" where
  \<comment> \<open>the record of greatest score, the first of them when several have it\<close>
  "first_max [] = None"
| "first_max (x # xs) =
     (case first_max xs of
        None \<Rightarrow> Some x
      | Some y \<Rightarrow> if score (snd y) > score (snd x) then Some y else Some x)"

definition positive :: "(string \<times> canonical) option \<Rightarrow> (string \<times> canonical) option" where
  \<comment> \<open>a selection is kept only when its score is above 0\<close>
  "positive sel = (case sel of None \<Rightarrow> None | Some y \<Rightarrow> if score (snd y) > 0 then Some y else None)"

definition claimed_candidate ::
  "bool \<Rightarrow> string \<Rightarrow> real \<Rightarrow> real \<Rightarrow> result_set \<Rightarrow> (string \<times> canonical) option" where
  \<comment> \<open>the selection in the words of the specification: among the candidates of the
      video within the window, the one of greatest score, the first on ties\<close>
  "claimed_candidate is_before vid now_time interval candidates =
     first_max (filter (in_window is_before vid now_time interval) candidates)"

definition correlated ::
  "result_set \<Rightarrow> result_set \<Rightarrow> real \<Rightarrow> string \<times> canonical \<Rightarrow> string \<times> temporal_record" where
  \<comment> \<open>the temporal record of one now record\<close>
  "correlated before_set after_set interval item =
     (case item of (now_id, r) \<Rightarrow>
        (let sb = positive (claimed_candidate True (video_of now_id) (time_in_seconds r)
                              interval before_set);
             sa = positive (claimed_candidate False (video_of now_id) (time_in_seconds r)
                              interval after_set)
         in (now_id,
             \<lparr>tr_now = to_event (now_id, r),
              tr_before = map_option to_event sb,
              tr_after = map_option to_event sa,
              tr_score = score r + (case sb of None \<Rightarrow> 0 | Some y \<Rightarrow> score (snd y))
                                 + (case sa of None \<Rightarrow> 0 | Some y \<Rightarrow> score (snd y))\<rparr>)))"

definition frame :: "string \<Rightarrow> string \<Rightarrow> real \<Rightarrow> real \<Rightarrow> canonical" where
  \<comment> \<open>a canonical record for the examples\<close>
  "frame vid fid s t =
     \<lparr>score = s, url = ''https://video/'' @ vid, path = ''keyframes'', video_id = vid,
      frame_id = fid, time_in_seconds = t\<rparr>"

definition lit_now :: result_set where
  \<comment> \<open>the now record of the specification's temporal example\<close>
  "lit_now = [(''L01/V1/30'', frame ''V1'' ''30'' (2/5) 30)]"

definition lit_before :: result_set where
  \<comment> \<open>its two before candidates\<close>
  "lit_before = [(''L01/V1/10'', frame ''V1'' ''10'' (1/2) 10),
                 (''L01/V1/25'', frame ''V1'' ''25'' (9/10) 25)]"

definition weak_before :: result_set where
  \<comment> \<open>a before set whose only candidate has a negative score\<close>
  "weak_before = [(''L01/V1/25'', frame ''V1'' ''25'' (- 1/10) 25)]"

definition handle_at :: "state \<Rightarrow> nat \<Rightarrow> string" where
  \<comment> \<open>the handle made from the \<open>n\<close>-th random token\<close>
  "handle_at st n = ''0x'' @ entropy st n"

definition writes_fresh_only :: "state \<Rightarrow> state \<Rightarrow> bool" where
  \<comment> \<open>from \<open>st\<close> to \<open>st'\<close> the cache changed only under keys of handles generated in
      between; the token sequence and the connection are as before\<close>
  "writes_fresh_only st st' =
     (entropy st' = entropy st \<and> connected st' = connected st \<and> drawn st \<le> drawn st' \<and>
      (\<forall>key. cache st' key \<noteq> cache st key \<longrightarrow>
         (\<exists>n. drawn st \<le> n \<and> n < drawn st' \<and> key = cache_key (handle_at st n))))"

definition collision_state :: state where
  \<comment> \<open>the state after one visual search, when every random token is the same\<close>
  "collision_state =
     snd (run example_hits_env (VisualSearch ''clip'' MOMENT (Some ''cat'') []) example_state)"

definition narrowing_filter :: ChatFilter where
  \<comment> \<open>a filter request that names the handle issued by that search\<close>
  "narrowing_filter = example_filter\<lparr>cf_state_id := Some ''0xa1b2c3d4e5f6''\<rparr>"

primrec first_seen :: "'a list \<Rightarrow> 'a list" where
  \<comment> \<open>the elements of a list in the order of their first occurrence\<close>
  "first_seen [] = []"
| "first_seen (x # xs) = x # filter (\<lambda>y. y \<noteq> x) (first_seen xs)"

definition image_of :: "string \<times> canonical \<Rightarrow> Image" where
  \<comment> \<open>the image of a record\<close>
  "image_of item =
     \<lparr>img_id = fst item, img_path = path (snd item), img_name = fst item,
      img_time_in_seconds = time_in_seconds (snd item), img_score = score (snd item)\<rparr>"

definition of_video :: "string \<Rightarrow> result_set \<Rightarrow> result_set" where
  \<comment> \<open>the records of a video, in the order met\<close>
  "of_video v rs = filter (\<lambda>x. video_id (snd x) = v) rs"

definition retag :: "Mode \<Rightarrow> Cluster \<Rightarrow> Cluster" where
  \<comment> \<open>a cluster with its mode replaced\<close>
  "retag m c = c\<lparr>cl_mode := Some m\<rparr>"

definition cluster_avg :: "Cluster \<Rightarrow> real" where
  \<comment> \<open>the mean score of a cluster's images\<close>
  "cluster_avg c = avg_score (cl_image_list c)"

definition literal_records :: result_set where
  \<comment> \<open>the records A, C, B of the specification's clustering example\<close>
  "literal_records =
     [(''L01/V1/1'', frame ''V1'' ''1'' (9/10) 1),
      (''L01/V2/1'', frame ''V2'' ''1'' (8/10) 1),
      (''L01/V1/2'', frame ''V1'' ''2'' (7/10) 2)]"

definition dd_get :: "('k \<times> 'v::zero) list \<Rightarrow> 'k \<Rightarrow> 'v" where
  \<comment> \<open>reading a score map, 0 for an id it lacks\<close>
  "dd_get d i = (case map_of d i of None \<Rightarrow> 0 | Some y \<Rightarrow> y)"

fun rank_of :: "'a \<Rightarrow> 'a list \<Rightarrow> nat option" where
  \<comment> \<open>the 0-based position of an element in a list\<close>
  "rank_of i [] = None"
| "rank_of i (x # xs) = (if x = i then Some 0 else map_option Suc (rank_of i xs))"

definition rrf_score :: "fusion \<Rightarrow> result_set list \<Rightarrow> string \<Rightarrow> real" where
  \<comment> \<open>the RRF score in the words of the specification\<close>
  "rrf_score f sets i =
     (\<Sum>s\<leftarrow>sets. case rank_of i (map fst s) of
                    None \<Rightarrow> 0
                  | Some r \<Rightarrow> 1 / (real_of_int (fusion_k f) + real r + 1))"

definition mnz_score :: "result_set list \<Rightarrow> string \<Rightarrow> real" where
  \<comment> \<open>the CombMNZ score in the words of the specification\<close>
  "mnz_score sets i =
     (\<Sum>s\<leftarrow>sets. case map_of s i of None \<Rightarrow> 0 | Some r \<Rightarrow> score r)
     * real (length (filter (\<lambda>s. i \<in> fst ` set s) sets))"

fun last_seen :: "result_set list \<Rightarrow> string \<Rightarrow> canonical option" where
  \<comment> \<open>the record of an id in the last input set that has the id\<close>
  "last_seen [] i = None"
| "last_seen (s # ss) i = (case last_seen ss i of Some r \<Rightarrow> Some r | None \<Rightarrow> map_of s i)"

definition all_ids :: "result_set list \<Rightarrow> string set" where
  \<comment> \<open>the ids of all input sets\<close>
  "all_ids sets = (\<Union>s \<in> set sets. fst ` set s)"

fun rank_contrib :: "fusion \<Rightarrow> nat \<Rightarrow> string list \<Rightarrow> string \<Rightarrow> real" where
  \<comment> \<open>what one set adds to the RRF score of \<open>i\<close>, its ranks counted from \<open>rank\<close>\<close>
  "rank_contrib f rank [] i = 0"
| "rank_contrib f rank (d # ds) i =
     (if d = i then 1 / (real_of_int (fusion_k f) + real rank + 1) else 0)
     + rank_contrib f (Suc rank) ds i"

definition add_scores :: "(string \<times> real) list \<Rightarrow> result_set \<Rightarrow> (string \<times> real) list" where
  \<comment> \<open>the score sums of \<open>comb_mnz_fusion\<close> after one more set\<close>
  "add_scores a s = foldl (\<lambda>a x. dd_add (fst x) (score (snd x)) a) a s"

definition add_counts :: "(string \<times> nat) list \<Rightarrow> result_set \<Rightarrow> (string \<times> nat) list" where
  \<comment> \<open>the counts of \<open>comb_mnz_fusion\<close> after one more set\<close>
  "add_counts b s = foldl (\<lambda>b x. dd_incr (fst x) b) b s"

definition rescored :: "(string \<Rightarrow> real) \<Rightarrow> result_set \<Rightarrow> result_set" where
  \<comment> \<open>a result set with every score replaced by the value of \<open>sc\<close> at its id\<close>
  "rescored sc m = map (\<lambda>x. (fst x, (snd x)\<lparr>score := sc (fst x)\<rparr>)) m"

definition rank_by :: "(string \<times> real) list \<Rightarrow> result_set list \<Rightarrow> string list" where
  \<comment> \<open>the ranking by one score map alone: the merged ids by that score, greatest
      first, ties in merge order\<close>
  "rank_by scores sets =
     map fst (sorted_desc (\<lambda>x. dd_get scores (fst x)) (merge_results sets))"

definition two_sets :: "result_set list" where
  \<comment> \<open>two input sets on which the RRF order and the CombMNZ order differ\<close>
  "two_sets =
     [[(''L01/V1/1'', frame ''V1'' ''1'' (1/5) 1), (''L01/V2/1'', frame ''V2'' ''1'' (3/2) 1)],
      [(''L01/V1/1'', frame ''V1'' ''1'' (3/10) 1)]]"

section \<open>Properties\<close>

subsection \<open>Restoring an unknown handle\<close>

text \<open>
  C8. When the session cache has nothing under the handle (unknown, expired, or the
  cache is down), \<open>restore_chat\<close> answers with status success, no clusters and the
  handle it was given; it raises nothing and leaves the state as it was.
\<close>

theorem restore_unknown_handle:
  "get_cached_result state_id st = None \<Longrightarrow>
   restore_chat e m state_id st =
     (Inr \<lparr>status = ''success'', r_mode = Some m, r_results = [], r_state_id = state_id,
           r_translated_texts = []\<rparr>, st)"
  by (simp add: restore_chat_def success_def)

theorem restore_unknown_handle_witness:
  "get_cached_result ''0x0123456789ab'' example_state = None \<and>
   restore_chat example_env VIDEO ''0x0123456789ab'' example_state =
     (Inr \<lparr>status = ''success'', r_mode = Some VIDEO, r_results = [],
           r_state_id = ''0x0123456789ab'', r_translated_texts = []\<rparr>, example_state)"
proof -
  have h: "get_cached_result ''0x0123456789ab'' example_state = None"
    by (simp add: get_cached_result_def example_state_def)
  show ?thesis using h restore_unknown_handle [OF h] by simp
qed

subsection \<open>Translation failures\<close>

lemmas deep_cong = reply.case_cong sum.case_cong option.case_cong prod.case_cong if_cong

lemma translate_text_recovering:
  "translation e = Some backend \<Longrightarrow>
   translate_text (e\<lparr>translation := Some (recovering backend)\<rparr>) text = translate_text e text"
  by (simp add: translate_text_def recovering_def split: reply.splits)

lemma format_milvus_result_translation [simp]:
  "format_milvus_result (e\<lparr>translation := b\<rparr>) rows = format_milvus_result e rows"
  by (simp add: format_milvus_result_def)

lemma inner_text_search_translation [simp]:
  "inner_text_search (e\<lparr>translation := b\<rparr>) text c n = inner_text_search e text c n"
  by (simp add: inner_text_search_def cong: deep_cong)

lemma ensemble_text_search_translation [simp]:
  "ensemble_text_search (e\<lparr>translation := b\<rparr>) text c n = ensemble_text_search e text c n"
  by (simp add: ensemble_text_search_def cong: deep_cong)

lemma inner_visual_search_translation [simp]:
  "inner_visual_search (e\<lparr>translation := b\<rparr>) c text imgs = inner_visual_search e c text imgs"
  by (simp add: inner_visual_search_def cong: deep_cong)

lemma ensemble_visual_search_translation [simp]:
  "ensemble_visual_search (e\<lparr>translation := b\<rparr>) c text imgs = ensemble_visual_search e c text imgs"
  by (simp add: ensemble_visual_search_def cong: deep_cong)

lemma filter_payload_translation [simp]:
  "filter_payload (e\<lparr>translation := b\<rparr>) cur fl n = filter_payload e cur fl n"
  by (simp add: filter_payload_def)

lemma filter_loop_translation [simp]:
  "filter_loop (e\<lparr>translation := b\<rparr>) cur hs acc = filter_loop e cur hs acc"
  by (induction hs arbitrary: acc) (simp_all cong: deep_cong)

lemma apply_filters_translation [simp]:
  "apply_filters (e\<lparr>translation := b\<rparr>) cur fl n = apply_filters e cur fl n"
  by (simp add: apply_filters_def cong: deep_cong)

lemma store_and_project_translation [simp]:
  "store_and_project (e\<lparr>translation := b\<rparr>) c m t tr st = store_and_project e c m t tr st"
  by (simp add: store_and_project_def cong: deep_cong)

lemma single_relevance_feedback_translation [simp]:
  "single_relevance_feedback (e\<lparr>translation := b\<rparr>) r = single_relevance_feedback e r"
  by (rule ext) (simp add: single_relevance_feedback_def cong: deep_cong)

lemma ensemble_relevance_feedback_translation [simp]:
  "ensemble_relevance_feedback (e\<lparr>translation := b\<rparr>) r = ensemble_relevance_feedback e r"
  by (simp add: ensemble_relevance_feedback_def cong: deep_cong)

lemma search_event_translation [simp]:
  "search_event (e\<lparr>translation := b\<rparr>) c ev = search_event e c ev"
  by (simp add: search_event_def cong: deep_cong)

lemma translate_event_recovering:
  "translation e = Some backend \<Longrightarrow>
   translate_event (e\<lparr>translation := Some (recovering backend)\<rparr>) ev tr = translate_event e ev tr"
  by (simp add: translate_event_def translate_text_recovering cong: deep_cong)

lemma temporal_results_recovering:
  "translation e = Some backend \<Longrightarrow>
   temporal_results (e\<lparr>translation := Some (recovering backend)\<rparr>) r = temporal_results e r"
  by (simp add: temporal_results_def translate_event_recovering cong: deep_cong)

lemma text_search_recovering:
  "translation e = Some backend \<Longrightarrow>
   text_search (e\<lparr>translation := Some (recovering backend)\<rparr>) r st = text_search e r st"
  by (simp add: text_search_def translate_text_recovering cong: deep_cong)

lemma visual_temporal_search_recovering:
  "translation e = Some backend \<Longrightarrow>
   visual_temporal_search (e\<lparr>translation := Some (recovering backend)\<rparr>) r st = visual_temporal_search e r st"
  by (simp add: visual_temporal_search_def temporal_results_recovering cong: deep_cong)

lemma run_recovering:
  "translation e = Some backend \<Longrightarrow>
   run (e\<lparr>translation := Some (recovering backend)\<rparr>) op st = run e op st"
  by (cases op)
     (simp_all add: text_search_recovering visual_temporal_search_recovering
        visual_search_def relevance_feedback_def filter_chat_def change_cluster_def
        change_clustering_mode_def restore_chat_def
        cong: deep_cong)



subsection \<open>Lexical filtering\<close>

lemma process_results_empty [simp]:
  "process_results kd (PyDict []) m t = Inr []"
  by (simp add: process_results_def)

text \<open>
  C10. When the request of \<open>apply_filters\<close> to the lexical backend fails (the client
  raises, or the answer cannot be read), \<open>apply_filters\<close> returns the empty mapping and
  \<open>filter_chat\<close> answers with status success, no clusters and a newly generated
  handle; the empty result set is written under that handle (and is found there when
  the cache is connected).  No error is raised.
\<close>

theorem filter_backend_failure:
  assumes "failed (elastic e (filter_payload e (prior_results request st)
                     (cf_filters request) (cf_top_k request)))"
  shows "apply_filters e (prior_results request st) (cf_filters request) (cf_top_k request)
           = Inr [] \<and>
         fst (filter_chat e request st) =
           Inr \<lparr>status = ''success'', r_mode = cf_mode request, r_results = [],
                r_state_id = ''0x'' @ entropy st (drawn st), r_translated_texts = []\<rparr> \<and>
         drawn (snd (filter_chat e request st)) = Suc (drawn st) \<and>
         (connected st \<longrightarrow>
            map_option c_results
              (get_cached_result (''0x'' @ entropy st (drawn st)) (snd (filter_chat e request st)))
            = Some (PyDict []))"
proof -
  have a: "apply_filters e (prior_results request st) (cf_filters request) (cf_top_k request)
           = Inr []"
    using assms by (simp add: apply_filters_def failed_def split: reply.splits)
  have fc: "filter_chat e request st =
      (Inr (success (cf_mode request) (''0x'' @ entropy st (drawn st)) [] []),
       snd (cache_result (''0x'' @ entropy st (drawn st))
              \<lparr>c_temporal = (case get_cached_result (py_str (cf_state_id request)) st of
                               None \<Rightarrow> False | Some c \<Rightarrow> c_temporal c),
               c_results = PyDict [], c_translated_texts = None\<rparr>
              (st\<lparr>drawn := Suc (drawn st)\<rparr>)))"
    unfolding filter_chat_def Let_def
    using a [unfolded prior_results_def]
    by (simp add: plain_dict_def generate_state_id_def split: prod.splits)
  show ?thesis
    using a
    by (simp add: fc cache_result_def get_cached_result_def success_def)
qed

theorem filter_backend_failure_witness:
  "failed (elastic example_env (filter_payload example_env (prior_results example_filter example_state)
             (cf_filters example_filter) (cf_top_k example_filter))) \<and>
   fst (filter_chat example_env example_filter example_state) =
     Inr \<lparr>status = ''success'', r_mode = Some VIDEO, r_results = [],
          r_state_id = ''0xa1b2c3d4e5f6'', r_translated_texts = []\<rparr> \<and>
   map_option c_results
     (get_cached_result ''0xa1b2c3d4e5f6'' (snd (filter_chat example_env example_filter example_state)))
     = Some (PyDict [])"
proof -
  have h: "failed (elastic example_env (filter_payload example_env
             (prior_results example_filter example_state)
             (cf_filters example_filter) (cf_top_k example_filter)))"
    by (simp add: example_env_def failed_def)
  have c: "connected example_state" "entropy example_state (drawn example_state) = ''a1b2c3d4e5f6''"
    by (simp_all add: example_state_def)
  have m: "cf_mode example_filter = Some VIDEO"
    by (simp add: example_filter_def)
  show ?thesis
    using h c m filter_backend_failure [OF h] by simp
qed

lemma set_dict_set: "set (dict_set k v d) \<subseteq> insert (k, v) (set d)"
  by (induction d) (auto split: if_splits)

lemma map_of_dict_set: "map_of (dict_set k v d) = (map_of d)(k \<mapsto> v)"
  by (induction d) (auto simp: fun_eq_iff)

lemma keys_dict_set:
  "map fst (dict_set k v d) = (if k \<in> fst ` set d then map fst d else map fst d @ [k])"
  by (induction d) force+

lemma distinct_dict_set:
  "distinct (map fst d) \<Longrightarrow> distinct (map fst (dict_set k v d))"
  by (simp add: keys_dict_set)

lemma prior_score_Inr: "prior_score cur ident = Inr p \<Longrightarrow> p = prior_or_zero cur ident"
  by (cases cur) auto

lemma filter_loop_scores:
  "filter_loop e cur hits acc = Inr res \<Longrightarrow> (ident, r) \<in> set res \<Longrightarrow>
   (ident, r) \<in> set acc \<or>
   (\<exists>h \<in> set hits. hit_id h = ident \<and> score r = hit_score h + prior_or_zero cur ident)"
proof (induction hits arbitrary: acc)
  case Nil
  then show ?case by simp
next
  case (Cons h hs)
  from Cons.prems(1) obtain a vid fid p where
    sp: "split_id (hit_id h) = Inr (a, vid, fid)" and
    pr: "prior_score cur (hit_id h) = Inr p" and
    rest: "filter_loop e cur hs
             (dict_set (hit_id h)
                \<lparr>score = hit_score h + p, url = hit_url h, path = KEYFRAMES_DIR e,
                 video_id = vid, frame_id = fid,
                 time_in_seconds = hit_time_in_seconds h\<rparr> acc) = Inr res"
    by (auto split: sum.splits)
  from Cons.IH [OF rest Cons.prems(2)] show ?case
  proof
    assume "(ident, r) \<in> set (dict_set (hit_id h)
                \<lparr>score = hit_score h + p, url = hit_url h, path = KEYFRAMES_DIR e,
                 video_id = vid, frame_id = fid,
                 time_in_seconds = hit_time_in_seconds h\<rparr> acc)"
    then have "(ident, r) = (hit_id h, \<lparr>score = hit_score h + p, url = hit_url h, path = KEYFRAMES_DIR e,
                 video_id = vid, frame_id = fid,
                 time_in_seconds = hit_time_in_seconds h\<rparr>) \<or> (ident, r) \<in> set acc"
      using set_dict_set by fastforce
    then show ?thesis
      using prior_score_Inr [OF pr] by auto
  next
    assume "\<exists>h\<in>set hs. hit_id h = ident \<and> score r = hit_score h + prior_or_zero cur ident"
    then show ?thesis by auto
  qed
qed

lemma filter_chat_uses_prior:
  assumes "fst (filter_chat e request st) = Inr response"
  shows "\<exists>res. apply_filters e (prior_results request st) (cf_filters request) (cf_top_k request)
                 = Inr res \<and>
               process_results (KEYFRAMES_DIR e) (plain_dict res) (cf_mode request) False
                 = Inr (r_results response)"
proof (cases "apply_filters e (prior_results request st) (cf_filters request) (cf_top_k request)")
  case (Inl err)
  with assms show ?thesis
    by (simp add: filter_chat_def prior_results_def Let_def)
next
  case (Inr res)
  show ?thesis
  proof (cases "process_results (KEYFRAMES_DIR e) (plain_dict res) (cf_mode request) False")
    case (Inl err)
    with Inr assms show ?thesis
      by (simp add: filter_chat_def prior_results_def Let_def)
  next
    case r: (Inr clusters)
    with Inr assms have "response = success (cf_mode request) (fst (generate_state_id st)) clusters []"
      by (simp add: filter_chat_def prior_results_def Let_def prod.case_eq_if)
    with Inr r show ?thesis by (simp add: success_def)
  qed
qed

text \<open>
  C5. The request \<open>apply_filters\<close> sends to the lexical backend carries the ids of the
  prior result set, all of them and in its order, when that set is not empty, and no id
  restriction otherwise; and each record of the returned set has as score the match score
  of a hit with its id plus the prior score of that id, 0 when the prior set lacks it.
  A successful \<open>filter_chat\<close> is such a call on the result set stored under the request's
  handle (the empty one when there is none), and its clusters project what the call
  returned.
\<close>

theorem apply_filters_narrows_and_adds:
  "query_ids (filter_payload e cur fl n) =
     (if py_len cur > 0 then Some (py_keys cur) else None) \<and>
   (apply_filters e cur fl n = Inr res \<longrightarrow>
      (\<forall>(ident, r) \<in> set res.
         \<exists>hits h. elastic e (filter_payload e cur fl n) = Results hits \<and> h \<in> set hits \<and>
                  hit_id h = ident \<and> score r = hit_score h + prior_or_zero cur ident)) \<and>
   (fst (filter_chat e request st) = Inr response \<longrightarrow>
      (\<exists>res. apply_filters e (prior_results request st) (cf_filters request) (cf_top_k request)
                = Inr res \<and>
             process_results (KEYFRAMES_DIR e) (plain_dict res) (cf_mode request) False
                = Inr (r_results response)))"
proof -
  have p: "query_ids (filter_payload e cur fl n) =
     (if py_len cur > 0 then Some (py_keys cur) else None)"
    by (cases cur) (auto simp: filter_payload_def Let_def)
  have s: "\<exists>hits h. elastic e (filter_payload e cur fl n) = Results hits \<and> h \<in> set hits \<and>
                  hit_id h = ident \<and> score r = hit_score h + prior_or_zero cur ident"
    if a: "apply_filters e cur fl n = Inr res" and m: "(ident, r) \<in> set res" for ident r
  proof (cases "elastic e (filter_payload e cur fl n)")
    case ApiError
    with a m show ?thesis by (simp add: apply_filters_def)
  next
    case Malformed
    with a m show ?thesis by (simp add: apply_filters_def)
  next
    case (Results hits)
    with a have "filter_loop e cur hits [] = Inr res" by (simp add: apply_filters_def)
    from filter_loop_scores [OF this m] Results show ?thesis by auto
  qed
  show ?thesis using p s filter_chat_uses_prior [of e request st response] by blast
qed

theorem apply_filters_narrows_and_adds_witness:
  "py_len example_prior > 0 \<and>
   query_ids (filter_payload example_hits_env example_prior (cf_filters example_filter) 1024) =
     Some [''L01/V001/10'', ''L01/V002/7''] \<and>
   apply_filters example_hits_env example_prior (cf_filters example_filter) 1024 =
     Inr [(''L01/V001/10'',
           \<lparr>score = 5/2, url = ''u1'', path = ''keyframes'', video_id = ''V001'',
            frame_id = ''10'', time_in_seconds = 4\<rparr>)] \<and>
   (\<exists>hits h. elastic example_hits_env
                 (filter_payload example_hits_env example_prior (cf_filters example_filter) 1024)
                 = Results hits \<and> h \<in> set hits \<and> hit_id h = ''L01/V001/10'' \<and>
              5/2 = hit_score h + prior_or_zero example_prior ''L01/V001/10'')"
proof -
  have r: "apply_filters example_hits_env example_prior (cf_filters example_filter) 1024 =
     Inr [(''L01/V001/10'',
           \<lparr>score = 5/2, url = ''u1'', path = ''keyframes'', video_id = ''V001'',
            frame_id = ''10'', time_in_seconds = 4\<rparr>)]"
    by (simp add: apply_filters_def example_hits_env_def example_env_def example_prior_def
          split_id_def)
  from apply_filters_narrows_and_adds
         [of example_hits_env example_prior "cf_filters example_filter" 1024
             "[(''L01/V001/10'',
                \<lparr>score = 5/2, url = ''u1'', path = ''keyframes'', video_id = ''V001'',
                 frame_id = ''10'', time_in_seconds = 4\<rparr>)]"
             example_filter example_state] r
  show ?thesis by (simp add: example_prior_def)
qed

subsection \<open>Temporal correlation\<close>

lemma select_loop_char:
  "select_loop b vid t i items (sel, m) = Inr res \<Longrightarrow>
   res = (case first_max (filter (in_window b vid t i) items) of
            None \<Rightarrow> sel
          | Some y \<Rightarrow> if score (snd y) > m then Some y else sel)"
proof (induction items arbitrary: sel m)
  case Nil
  then show ?case by simp
next
  case (Cons x rest)
  obtain cid c where x: "x = (cid, c)" by (cases x)
  from Cons.prems x obtain a v fr where sp: "split_id cid = Inr (a, v, fr)"
    by (auto split: sum.splits)
  show ?case
  proof (cases "in_window b vid t i x")
    case False
    with Cons.prems x sp have "select_loop b vid t i rest (sel, m) = Inr res"
      by (auto simp: in_window_def Let_def split: if_splits)
    from Cons.IH [OF this] False show ?thesis by simp
  next
    case True
    show ?thesis
    proof (cases "score c > m")
      case gt: True
      with Cons.prems x sp True have "select_loop b vid t i rest (Some (cid, c), score c) = Inr res"
        by (auto simp: in_window_def Let_def split: if_splits)
      from Cons.IH [OF this] True gt x show ?thesis
        by (auto split: option.splits)
    next
      case le: False
      with Cons.prems x sp True have "select_loop b vid t i rest (sel, m) = Inr res"
        by (auto simp: in_window_def Let_def split: if_splits)
      from Cons.IH [OF this] True le x show ?thesis
        by (auto split: option.splits)
    qed
  qed
qed

lemma select_candidate_char:
  "select_candidate b vid t i (PyDict items) = Inr sel \<Longrightarrow>
   sel = positive (claimed_candidate b vid t i items)"
  by (auto simp: select_candidate_def positive_def claimed_candidate_def
        dest!: select_loop_char split: option.splits)

lemma first_max_None: "first_max xs = None \<longleftrightarrow> xs = []"
  by (induction xs) (auto split: option.splits)

lemma first_max_mem: "first_max xs = Some y \<Longrightarrow> y \<in> set xs"
  by (induction xs arbitrary: y) (auto split: option.splits if_splits)

lemma first_max_ge: "first_max xs = Some y \<Longrightarrow> x \<in> set xs \<Longrightarrow> score (snd x) \<le> score (snd y)"
  by (induction xs arbitrary: y) (fastforce split: option.splits if_splits simp: first_max_None)+

lemma first_max_first:
  "first_max xs = Some y \<Longrightarrow>
   \<exists>ys zs. xs = ys @ y # zs \<and> (\<forall>x \<in> set ys. score (snd x) < score (snd y))"
proof (induction xs arbitrary: y)
  case Nil
  then show ?case by simp
next
  case (Cons x xs)
  show ?case
  proof (cases "first_max xs")
    case None
    with Cons.prems have "y = x" by simp
    then show ?thesis by fastforce
  next
    case (Some z)
    show ?thesis
    proof (cases "score (snd z) > score (snd x)")
      case True
      with Some Cons.prems have yz: "y = z" by simp
      from Cons.IH [OF Some] obtain ys zs where
        "xs = ys @ z # zs" "\<forall>x \<in> set ys. score (snd x) < score (snd z)" by blast
      with True yz have "x # xs = (x # ys) @ y # zs \<and> (\<forall>w \<in> set (x # ys). score (snd w) < score (snd y))"
        by auto
      then show ?thesis by blast
    next
      case False
      with Some Cons.prems have "y = x" by simp
      then show ?thesis by fastforce
    qed
  qed
qed

lemma dict_set_absent: "k \<notin> fst ` set d \<Longrightarrow> dict_set k v d = d @ [(k, v)]"
  by (induction d) auto

lemma combined_score_eq:
  "combined_score r sb sa =
     score r + (case sb of None \<Rightarrow> 0 | Some y \<Rightarrow> score (snd y))
             + (case sa of None \<Rightarrow> 0 | Some y \<Rightarrow> score (snd y))"
  by (simp add: combined_score_def Let_def split: option.splits prod.splits)

lemma correlate_loop_char:
  "correlate_loop now (PyDict before_set) (PyDict after_set) i acc = Inr res \<Longrightarrow>
   distinct (map fst now) \<Longrightarrow> fst ` set now \<inter> fst ` set acc = {} \<Longrightarrow>
   res = acc @ map (correlated before_set after_set i) now"
proof (induction now arbitrary: acc)
  case Nil
  then show ?case by simp
next
  case (Cons x rest)
  obtain nid r where x: "x = (nid, r)" by (cases x)
  from Cons.prems(1) x obtain a v fr sb sa where
    sp: "split_id nid = Inr (a, v, fr)" and
    b: "select_candidate True v (time_in_seconds r) i (PyDict before_set) = Inr sb" and
    a: "select_candidate False v (time_in_seconds r) i (PyDict after_set) = Inr sa" and
    rest: "correlate_loop rest (PyDict before_set) (PyDict after_set) i
             (dict_set nid
                \<lparr>tr_now = to_event (nid, r), tr_before = map_option to_event sb,
                 tr_after = map_option to_event sa,
                 tr_score = combined_score r sb sa\<rparr> acc) = Inr res"
    by (auto split: sum.splits)
  have v: "video_of nid = v" using sp by (simp add: video_of_def)
  have fresh: "nid \<notin> fst ` set acc" using Cons.prems(3) x by auto
  have step: "dict_set nid
                \<lparr>tr_now = to_event (nid, r), tr_before = map_option to_event sb,
                 tr_after = map_option to_event sa,
                 tr_score = combined_score r sb sa\<rparr> acc = acc @ [correlated before_set after_set i x]"
    using select_candidate_char [OF b] select_candidate_char [OF a] v x
    by (simp add: dict_set_absent [OF fresh] correlated_def Let_def combined_score_eq)
  have d: "distinct (map fst rest)" using Cons.prems(2) by simp
  have dis: "fst ` set rest \<inter> fst ` set (acc @ [correlated before_set after_set i x]) = {}"
    using Cons.prems(2,3) x by (auto simp: correlated_def Let_def)
  from Cons.IH [OF rest [unfolded step] d dis] show ?case by simp
qed

lemma temporal_correlate_char:
  assumes "temporal_correlate (PyDict now) (PyDict before_set) (PyDict after_set) interval = Inr out"
    and "distinct (map fst now)"
  shows "out = sorted_desc (\<lambda>x. tr_score (snd x))
                 (map (correlated before_set after_set (real_of_int interval)) now)"
proof -
  from assms(1) obtain fin where
    l: "correlate_loop now (PyDict before_set) (PyDict after_set) (real_of_int interval) [] = Inr fin"
    and o: "out = sorted_desc (\<lambda>x. tr_score (snd x)) fin"
    by (auto simp: temporal_correlate_def split: sum.splits)
  from correlate_loop_char [OF l assms(2)] o show ?thesis by simp
qed

lemma sorted_desc_sorted:
  "sorted_wrt (\<lambda>a b. f a \<ge> f b) (sorted_desc f xs)"
proof -
  have "sorted (map (\<lambda>x. - f x) (sort_key (\<lambda>x. - f x) xs))" by simp
  then show ?thesis
    by (simp add: sorted_desc_def sorted_wrt_map)
qed

lemma mset_sorted_desc [simp]: "mset (sorted_desc f xs) = mset xs"
  by (simp add: sorted_desc_def)

lemma set_sorted_desc [simp]: "set (sorted_desc f xs) = set xs"
  by (simp add: sorted_desc_def)

lemma fst_correlated [simp]: "fst (correlated b a i x) = fst x"
  by (cases x) (simp add: correlated_def Let_def)


lemma split_L01_V1_30 [simp]: "split_id ''L01/V1/30'' = Inr (''L01'', ''V1'', ''30'')"
  by (simp add: split_id_def)

lemma split_L01_V1_25 [simp]: "split_id ''L01/V1/25'' = Inr (''L01'', ''V1'', ''25'')"
  by (simp add: split_id_def)

lemma split_L01_V1_10 [simp]: "split_id ''L01/V1/10'' = Inr (''L01'', ''V1'', ''10'')"
  by (simp add: split_id_def)



text \<open>
  C9. A selected before or after candidate always has a score above 0; and when every
  candidate of the same video within the window has a score of 0 or less, none is
  selected, and a missing selection adds nothing to the combined score.
\<close>

theorem nonpositive_candidate_never_selected:
  assumes "select_candidate is_before vid now_time interval (PyDict candidates) = Inr sel"
  shows "(\<forall>y. sel = Some y \<longrightarrow> 0 < score (snd y)) \<and>
         ((\<forall>x \<in> set candidates. in_window is_before vid now_time interval x \<longrightarrow> score (snd x) \<le> 0)
            \<longrightarrow> sel = None \<and> combined_score r sel None = score r
                \<and> combined_score r None sel = score r)"
proof -
  note c = select_candidate_char [OF assms]
  have 1: "\<forall>y. sel = Some y \<longrightarrow> 0 < score (snd y)"
    using c by (auto simp: positive_def split: option.splits if_splits)
  have 2: "sel = None"
    if h: "\<forall>x \<in> set candidates. in_window is_before vid now_time interval x \<longrightarrow> score (snd x) \<le> 0"
  proof (cases "claimed_candidate is_before vid now_time interval candidates")
    case None
    with c show ?thesis by (simp add: positive_def)
  next
    case (Some y)
    then have "y \<in> set (filter (in_window is_before vid now_time interval) candidates)"
      unfolding claimed_candidate_def by (rule first_max_mem)
    with h have "score (snd y) \<le> 0" by auto
    with c Some show ?thesis by (simp add: positive_def)
  qed
  from 1 2 show ?thesis by (auto simp: combined_score_def)
qed

theorem nonpositive_candidate_never_selected_witness:
  "select_candidate True ''V1'' 30 60 (PyDict weak_before) = Inr None \<and>
   in_window True ''V1'' 30 60 (''L01/V1/25'', frame ''V1'' ''25'' (- 1/10) 25) \<and>
   combined_score (frame ''V1'' ''30'' (2/5) 30) None None = 2/5"
proof -
  have e: "select_candidate True ''V1'' 30 60 (PyDict weak_before) = Inr None"
    by (simp add: select_candidate_def weak_before_def frame_def)
  have w: "in_window True ''V1'' 30 60 (''L01/V1/25'', frame ''V1'' ''25'' (- 1/10) 25)"
    by (simp add: in_window_def frame_def)
  have n: "\<forall>x \<in> set weak_before. in_window True ''V1'' 30 60 x \<longrightarrow> score (snd x) \<le> 0"
    by (simp add: weak_before_def frame_def)
  from nonpositive_candidate_never_selected [OF e, of "frame ''V1'' ''30'' (2/5) 30"] n e w
  show ?thesis by (simp add: frame_def)
qed

subsection \<open>State handles\<close>

lemma wfo_refl [simp]: "writes_fresh_only st st"
  by (simp add: writes_fresh_only_def)

lemma wfo_trans:
  "writes_fresh_only st st1 \<Longrightarrow> writes_fresh_only st1 st2 \<Longrightarrow> writes_fresh_only st st2"
proof -
  assume a: "writes_fresh_only st st1" and b: "writes_fresh_only st1 st2"
  have e: "entropy st2 = entropy st" "connected st2 = connected st" "drawn st \<le> drawn st2"
    using a b by (auto simp: writes_fresh_only_def)
  have k: "\<exists>n. drawn st \<le> n \<and> n < drawn st2 \<and> key = cache_key (handle_at st n)"
    if c: "cache st2 key \<noteq> cache st key" for key
  proof (cases "cache st2 key = cache st1 key")
    case True
    with c have "cache st1 key \<noteq> cache st key" by simp
    with a obtain n where "drawn st \<le> n" "n < drawn st1" "key = cache_key (handle_at st n)"
      unfolding writes_fresh_only_def by blast
    moreover have "drawn st1 \<le> drawn st2" using b by (simp add: writes_fresh_only_def)
    ultimately show ?thesis by (intro exI [of _ n]) simp
  next
    case False
    with b obtain n where n: "drawn st1 \<le> n" "n < drawn st2" "key = cache_key (handle_at st1 n)"
      unfolding writes_fresh_only_def by blast
    have "handle_at st1 n = handle_at st n" using a by (simp add: writes_fresh_only_def handle_at_def)
    moreover have "drawn st \<le> drawn st1" using a by (simp add: writes_fresh_only_def)
    ultimately show ?thesis using n by (intro exI [of _ n]) simp
  qed
  show ?thesis using e k by (simp add: writes_fresh_only_def)
qed

lemma wfo_generate: "writes_fresh_only st (snd (generate_state_id st))"
  by (simp add: writes_fresh_only_def generate_state_id_def)

lemma wfo_generate_cache:
  "generate_state_id st = (h, st1) \<Longrightarrow> cache_result h v st1 = (b, st2) \<Longrightarrow>
   writes_fresh_only st st2"
  by (auto simp: writes_fresh_only_def generate_state_id_def cache_result_def handle_at_def
        split: if_splits)

lemma wfo_generate_cache' [simp]:
  "writes_fresh_only st
     (snd (cache_result (fst (generate_state_id st)) v (snd (generate_state_id st))))"
  using wfo_generate_cache [of st "fst (generate_state_id st)" "snd (generate_state_id st)" v]
  by (metis prod.collapse)

lemma wfo_store_and_project [simp]: "writes_fresh_only st (snd (store_and_project e c m t tr st))"
  by (simp add: store_and_project_def prod.case_eq_if split: sum.splits)

lemma wfo_filter_chat: "writes_fresh_only st (snd (filter_chat e r st))"
  by (simp add: filter_chat_def Let_def prod.case_eq_if split: sum.splits)

lemma wfo_restore_chat: "writes_fresh_only st (snd (restore_chat e m h st))"
  by (simp add: restore_chat_def split: option.splits sum.splits)

lemma wfo_change_clustering_mode: "writes_fresh_only st (snd (change_clustering_mode e h m st))"
  by (simp add: change_clustering_mode_def prod.case_eq_if split: option.splits sum.splits)

lemma wfo_change_cluster: "writes_fresh_only st (snd (change_cluster e h m st))"
  using wfo_change_clustering_mode [of st e h m]
  by (simp add: change_cluster_def prod.case_eq_if split: sum.splits)

lemma wfo_visual_search: "writes_fresh_only st (snd (visual_search e c m t i st))"
  by (simp add: visual_search_def split: sum.splits)

lemma wfo_relevance_feedback: "writes_fresh_only st (snd (relevance_feedback e r st))"
  by (simp add: relevance_feedback_def split: sum.splits)

lemma wfo_text_search: "writes_fresh_only st (snd (text_search e r st))"
proof -
  define p where "p = (if truthy (st_state_id r) then (text_of (st_state_id r), st)
                       else generate_state_id st)"
  obtain sid st0 where eq: "p = (sid, st0)" by (cases p)
  have g: "writes_fresh_only st st0"
    using wfo_generate [of st] eq by (auto simp: p_def split: if_splits)
  have h: "writes_fresh_only st (snd (store_and_project e c m t tr st0))" for c m t tr
    by (rule wfo_trans [OF g wfo_store_and_project])
  show ?thesis
    unfolding text_search_def p_def [symmetric] eq
    using g h
    by (simp split: option.splits sum.splits)
qed

lemma wfo_visual_temporal_search: "writes_fresh_only st (snd (visual_temporal_search e r st))"
proof -
  obtain sid st0 where eq: "generate_state_id st = (sid, st0)" by (cases "generate_state_id st")
  have g: "writes_fresh_only st st0"
    using wfo_generate [of st] eq by simp
  have h: "writes_fresh_only st
             (snd (cache_result (fst (generate_state_id st0)) v (snd (generate_state_id st0))))" for v
    by (rule wfo_trans [OF g wfo_generate_cache'])
  show ?thesis
    unfolding visual_temporal_search_def eq Let_def
    using g h
    by (simp add: prod.case_eq_if split: option.splits sum.splits)
qed

lemma wfo_run: "writes_fresh_only st (snd (run e op st))"
  by (cases op)
     (simp_all add: wfo_text_search wfo_visual_search wfo_relevance_feedback
        wfo_visual_temporal_search wfo_filter_chat wfo_change_cluster wfo_restore_chat)


lemma collision_state_eq:
  "collision_state =
     \<lparr>cache = [''search_0xa1b2c3d4e5f6'' \<mapsto>
                 \<lparr>c_temporal = False, c_results = PyDict [], c_translated_texts = None\<rparr>],
      connected = True, entropy = (\<lambda>_. ''a1b2c3d4e5f6''), drawn = 1\<rparr>"
  by (simp add: collision_state_def visual_search_def inner_visual_search_def truthy_def
        example_hits_env_def example_env_def format_milvus_result_def store_and_project_def
        generate_state_id_def cache_result_def example_state_def cache_key_def plain_dict_def
        process_results_def)



subsection \<open>Video clusters ordered by mean score\<close>

lemma set_first_seen [simp]: "set (first_seen xs) = set xs"
  by (induction xs) auto

lemma distinct_first_seen [simp]: "distinct (first_seen xs)"
  by (induction xs) auto

lemma group_step_keys:
  "map fst (group_step g x) =
     (if video_id (snd x) \<in> set (map fst g) then map fst g else map fst g @ [video_id (snd x)])"
  by (cases x) (auto simp: group_step_def Let_def keys_dict_set map_of_eq_None_iff
        split: option.splits dest: map_of_SomeD weak_map_of_SomeI)

lemma groups_keys:
  "map fst (foldl group_step g rs) =
     map fst g @ filter (\<lambda>v. v \<notin> set (map fst g)) (first_seen (map (\<lambda>x. video_id (snd x)) rs))"
proof (induction rs arbitrary: g)
  case Nil
  then show ?case by simp
next
  case (Cons x rs)
  show ?case
  proof (cases "video_id (snd x) \<in> set (map fst g)")
    case True
    then have "filter (\<lambda>v. v \<notin> set (map fst g)) fs =
               filter (\<lambda>v. v \<noteq> video_id (snd x) \<and> v \<notin> set (map fst g)) fs" for fs
      by (intro filter_cong) auto
    with True show ?thesis
      by (simp add: Cons.IH group_step_keys del: set_map)
  next
    case False
    then show ?thesis
      by (simp add: Cons.IH group_step_keys conj_commute del: set_map)
  qed
qed

lemma group_step_lookup:
  "map_of (group_step g x) v =
     (if video_id (snd x) = v
      then (case map_of g v of
              None \<Rightarrow> Some ([image_of x], url (snd x))
            | Some (images, u) \<Rightarrow> Some (images @ [image_of x], u))
      else map_of g v)"
  by (cases x) (auto simp: group_step_def Let_def map_of_dict_set image_of_def split: option.splits)

lemma groups_lookup:
  "map_of (foldl group_step g rs) v =
     (case map_of g v of
        None \<Rightarrow> (case of_video v rs of
                   [] \<Rightarrow> None
                 | x # xs \<Rightarrow> Some (map image_of (x # xs), url (snd x)))
      | Some (images, u) \<Rightarrow> Some (images @ map image_of (of_video v rs), u))"
proof (induction rs arbitrary: g)
  case Nil
  then show ?case by (simp add: of_video_def split: option.splits)
next
  case (Cons x rs)
  show ?case
    by (simp add: Cons.IH group_step_lookup of_video_def split: option.splits list.splits)
qed

lemma distinct_groups: "distinct (map fst (video_groups_of rs))"
  by (simp add: video_groups_of_def groups_keys)

lemma video_groups_char:
  "video_groups_of rs =
     map (\<lambda>v. (v, map image_of (of_video v rs), url (snd (hd (of_video v rs)))))
       (first_seen (map (\<lambda>x. video_id (snd x)) rs))"
proof -
  have k: "map fst (video_groups_of rs) = first_seen (map (\<lambda>x. video_id (snd x)) rs)"
    by (simp add: video_groups_of_def groups_keys)
  have "g = (fst g, map image_of (of_video (fst g) rs), url (snd (hd (of_video (fst g) rs))))"
    if "g \<in> set (video_groups_of rs)" for g
  proof -
    from that distinct_groups [of rs] have "map_of (video_groups_of rs) (fst g) = Some (snd g)"
      by simp
    then have "(case of_video (fst g) rs of [] \<Rightarrow> None
                | x # xs \<Rightarrow> Some (map image_of (x # xs), url (snd x))) = Some (snd g)"
      by (simp add: video_groups_of_def groups_lookup)
    then have "snd g = (map image_of (of_video (fst g) rs), url (snd (hd (of_video (fst g) rs))))"
      by (cases "of_video (fst g) rs") auto
    then show ?thesis
      by (cases g) simp
  qed
  then have "video_groups_of rs =
     map (\<lambda>g. (fst g, map image_of (of_video (fst g) rs), url (snd (hd (of_video (fst g) rs)))))
       (video_groups_of rs)"
    by (simp add: map_idI)
  also have "\<dots> = map (\<lambda>v. (v, map image_of (of_video v rs), url (snd (hd (of_video v rs)))))
       (map fst (video_groups_of rs))"
    by (simp add: comp_def)
  finally show ?thesis by (simp add: k)
qed

lemma insort_key_map:
  "map f (insort_key (\<lambda>x. k (f x)) a xs) = insort_key k (f a) (map f xs)"
  by (induction xs) auto

lemma sort_key_map:
  "map f (sort_key (\<lambda>x. k (f x)) xs) = sort_key k (map f xs)"
  by (induction xs) (auto simp: insort_key_map)

lemma sorted_desc_map:
  "map f (sorted_desc (\<lambda>x. k (f x)) xs) = sorted_desc k (map f xs)"
  using sort_key_map [of f "\<lambda>x. - k x" xs] by (simp add: sorted_desc_def)

lemma sorted_desc_stable:
  "filter (\<lambda>y. f y = m) (sorted_desc f xs) = filter (\<lambda>y. f y = m) xs"
  using sort_key_stable [of "\<lambda>x. - f x" "- m" xs] by (simp add: sorted_desc_def)

lemma video_mode_clusters:
  "create_video_clusters rs (Some VIDEO) =
     map (\<lambda>v. \<lparr>cl_mode = Some VIDEO, cl_image_list = map image_of (of_video v rs),
                cl_cluster_name = v, cl_url = url (snd (hd (of_video v rs)))\<rparr>)
       (first_seen (map (\<lambda>x. video_id (snd x)) rs))"
  by (simp add: create_video_clusters_def Let_def video_groups_char video_cluster_def comp_def)

lemma video_avg_clusters:
  "create_video_clusters rs (Some VIDEO_AVG) =
     sorted_desc cluster_avg (map (retag VIDEO_AVG) (create_video_clusters rs (Some VIDEO)))"
proof -
  have r: "map (retag VIDEO_AVG) (create_video_clusters rs (Some VIDEO)) =
           map (video_cluster (Some VIDEO_AVG)) (video_groups_of rs)"
    by (simp add: create_video_clusters_def Let_def retag_def video_cluster_def split_beta)
  have k: "(\<lambda>g. avg_score (fst (snd g))) = (\<lambda>g. cluster_avg (video_cluster (Some VIDEO_AVG) g))"
    by (simp add: fun_eq_iff cluster_avg_def video_cluster_def split_beta)
  show ?thesis
    unfolding r
    by (simp add: create_video_clusters_def Let_def k sorted_desc_map)
qed



subsection \<open>Rank fusion\<close>

lemma dd_get_dd_add: "dd_get (dd_add k x d) i = dd_get d i + (if i = k then x else 0)"
  by (simp add: dd_get_def dd_add_def map_of_dict_set)

lemma dd_get_dd_incr: "dd_get (dd_incr k d) i = dd_get d i + (if i = k then 1 else 0)"
  by (simp add: dd_get_def dd_incr_def map_of_dict_set)

lemma keys_set_dict_set: "fst ` set (dict_set k v d) = insert k (fst ` set d)"
proof -
  have "set (map fst (dict_set k v d)) = insert k (set (map fst d))"
    unfolding keys_dict_set by auto
  then show ?thesis by simp
qed

lemma dd_get_Nil [simp]: "dd_get [] i = 0"
  by (simp add: dd_get_def)

lemma keys_dd_add: "fst ` set (dd_add k x d) = insert k (fst ` set d)"
  by (simp add: dd_add_def keys_set_dict_set)

lemma keys_dd_incr: "fst ` set (dd_incr k d) = insert k (fst ` set d)"
  by (simp add: dd_incr_def keys_set_dict_set)

lemma distinct_dd_add: "distinct (map fst d) \<Longrightarrow> distinct (map fst (dd_add k x d))"
  by (simp add: dd_add_def distinct_dict_set)

lemma rrf_ranks_get:
  "dd_get (rrf_ranks f rank ids fused) i = dd_get fused i + rank_contrib f rank ids i"
  by (induction ids arbitrary: rank fused) (simp_all add: dd_get_dd_add)

lemma rrf_ranks_keys:
  "fst ` set (rrf_ranks f rank ids fused) = fst ` set fused \<union> set ids"
  by (induction ids arbitrary: rank fused) (auto simp: keys_dd_add)

lemma rrf_ranks_distinct:
  "distinct (map fst fused) \<Longrightarrow> distinct (map fst (rrf_ranks f rank ids fused))"
  by (induction ids arbitrary: rank fused) (simp_all add: distinct_dd_add)

lemma rank_contrib_absent: "i \<notin> set ids \<Longrightarrow> rank_contrib f rank ids i = 0"
  by (induction ids arbitrary: rank) auto

lemma rank_of_None: "rank_of i xs = None \<longleftrightarrow> i \<notin> set xs"
  by (induction xs) auto

lemma rank_contrib_distinct:
  "distinct ids \<Longrightarrow>
   rank_contrib f rank ids i =
     (case rank_of i ids of
        None \<Rightarrow> 0
      | Some r \<Rightarrow> 1 / (real_of_int (fusion_k f) + real (rank + r) + 1))"
proof (induction ids arbitrary: rank)
  case Nil
  then show ?case by simp
next
  case (Cons d ds)
  show ?case
  proof (cases "d = i")
    case True
    with Cons.prems have "i \<notin> set ds" by simp
    with True show ?thesis by (simp add: rank_contrib_absent)
  next
    case False
    with Cons show ?thesis by (simp split: option.splits)
  qed
qed

lemma rrf_fold_get:
  "dd_get (foldl (\<lambda>fused s. rrf_ranks f 0 (map fst s) fused) acc sets) i =
     dd_get acc i + (\<Sum>s\<leftarrow>sets. rank_contrib f 0 (map fst s) i)"
  by (induction sets arbitrary: acc) (simp_all add: rrf_ranks_get)

lemma rrf_fold_keys:
  "fst ` set (foldl (\<lambda>fused s. rrf_ranks f 0 (map fst s) fused) acc sets) =
     fst ` set acc \<union> all_ids sets"
  by (induction sets arbitrary: acc) (auto simp: rrf_ranks_keys all_ids_def)

lemma rrf_fold_distinct:
  "distinct (map fst acc) \<Longrightarrow>
   distinct (map fst (foldl (\<lambda>fused s. rrf_ranks f 0 (map fst s) fused) acc sets))"
  by (induction sets arbitrary: acc) (simp_all add: rrf_ranks_distinct)

lemma rrf_keys: "fst ` set (reciprocal_rank_fusion f sets) = all_ids sets"
  by (simp add: reciprocal_rank_fusion_def rrf_fold_keys)

lemma rrf_get_distinct:
  assumes "\<forall>s \<in> set sets. distinct (map fst s)"
  shows "dd_get (reciprocal_rank_fusion f sets) i = rrf_score f sets i"
proof -
  have "(\<Sum>s\<leftarrow>sets. rank_contrib f 0 (map fst s) i) =
        (\<Sum>s\<leftarrow>sets. case rank_of i (map fst s) of
                    None \<Rightarrow> 0
                  | Some r \<Rightarrow> 1 / (real_of_int (fusion_k f) + real r + 1))"
    using assms
    by (intro arg_cong [where f = sum_list] map_cong)
       (simp_all add: rank_contrib_distinct split: option.splits)
  then show ?thesis
    by (simp add: reciprocal_rank_fusion_def rrf_fold_get rrf_score_def)
qed

lemma mnz_step_pair [simp]:
  "mnz_step (a, b) x = (dd_add (fst x) (score (snd x)) a, dd_incr (fst x) b)"
  by (simp add: mnz_step_def)

lemma mnz_inner_pair: "foldl mnz_step (a, b) s = (add_scores a s, add_counts b s)"
  by (induction s arbitrary: a b) (simp_all add: add_scores_def add_counts_def)

lemma mnz_outer_pair:
  "foldl (\<lambda>acc s. foldl mnz_step acc s) (a, b) sets =
     (foldl add_scores a sets, foldl add_counts b sets)"
  by (induction sets arbitrary: a b) (simp_all add: mnz_inner_pair)

lemma add_scores_get:
  "dd_get (add_scores a s) i = dd_get a i + (\<Sum>x\<leftarrow>s. if fst x = i then score (snd x) else 0)"
  unfolding add_scores_def
  by (induction s arbitrary: a) (simp_all add: dd_get_dd_add)

lemma add_counts_get:
  "dd_get (add_counts b s) i = dd_get b i + length (filter (\<lambda>x. fst x = i) s)"
  unfolding add_counts_def
  by (induction s arbitrary: b) (simp_all add: dd_get_dd_incr)

lemma add_scores_keys: "fst ` set (add_scores a s) = fst ` set a \<union> fst ` set s"
  unfolding add_scores_def
  by (induction s arbitrary: a) (simp_all add: keys_dd_add Un_commute insert_commute)

lemma sums_get:
  "dd_get (foldl add_scores a sets) i =
     dd_get a i + (\<Sum>s\<leftarrow>sets. \<Sum>x\<leftarrow>s. if fst x = i then score (snd x) else 0)"
  by (induction sets arbitrary: a) (simp_all add: add_scores_get)

lemma counts_get:
  "dd_get (foldl add_counts b sets) i =
     dd_get b i + (\<Sum>s\<leftarrow>sets. length (filter (\<lambda>x. fst x = i) s))"
  by (induction sets arbitrary: b) (simp_all add: add_counts_get)

lemma sums_keys: "fst ` set (foldl add_scores a sets) = fst ` set a \<union> all_ids sets"
  by (induction sets arbitrary: a) (simp_all add: add_scores_keys all_ids_def Un_assoc)

lemma comb_mnz_eq:
  "comb_mnz_fusion sets =
     map (\<lambda>(j, x). (j, x * real (dd_get (foldl add_counts [] sets) j))) (foldl add_scores [] sets)"
  by (simp add: comb_mnz_fusion_def mnz_outer_pair dd_get_def)

lemma comb_mnz_keys: "fst ` set (comb_mnz_fusion sets) = all_ids sets"
proof -
  have "map fst (comb_mnz_fusion sets) = map fst (foldl add_scores [] sets)"
    by (simp add: comb_mnz_eq split_beta)
  then have "set (map fst (comb_mnz_fusion sets)) = set (map fst (foldl add_scores [] sets))"
    by simp
  then show ?thesis by (simp add: sums_keys)
qed

lemma dd_get_map_scale:
  "dd_get (map (\<lambda>(i, s). (i, s * g i)) d) i = dd_get d i * (g i :: real)"
  by (induction d) (simp_all add: dd_get_def split_beta)

lemma comb_mnz_get:
  "dd_get (comb_mnz_fusion sets) i =
     (\<Sum>s\<leftarrow>sets. \<Sum>x\<leftarrow>s. if fst x = i then score (snd x) else 0)
     * real (\<Sum>s\<leftarrow>sets. length (filter (\<lambda>x. fst x = i) s))"
  by (simp add: comb_mnz_eq dd_get_map_scale sums_get counts_get)

lemma distinct_sum_lookup:
  "distinct (map fst s) \<Longrightarrow>
   (\<Sum>x\<leftarrow>s. if fst x = i then score (snd x) else 0) =
     (case map_of s i of None \<Rightarrow> 0 | Some r \<Rightarrow> score r)"
proof (induction s)
  case Nil
  then show ?case by simp
next
  case (Cons x s)
  show ?case
  proof (cases "fst x = i")
    case True
    with Cons.prems have "i \<notin> fst ` set s" by auto
    then have "(\<Sum>x\<leftarrow>s. if fst x = i then score (snd x) else 0) = 0"
      by (induction s) auto
    with True show ?thesis by (cases x) simp
  next
    case False
    with Cons show ?thesis by (cases x) simp
  qed
qed

lemma distinct_count_lookup:
  "distinct (map fst s) \<Longrightarrow>
   length (filter (\<lambda>x. fst x = i) s) = (if i \<in> fst ` set s then 1 else 0)"
proof (induction s)
  case Nil
  then show ?case by simp
next
  case (Cons x s)
  show ?case
  proof (cases "fst x = i")
    case True
    with Cons.prems have "i \<notin> fst ` set s" by auto
    then have "filter (\<lambda>x. fst x = i) s = []"
      by (auto simp: filter_empty_conv)
    with True show ?thesis by simp
  next
    case False
    with Cons show ?thesis by auto
  qed
qed

lemma sum_list_indicator:
  "(\<Sum>s\<leftarrow>sets. if P s then 1 else 0) = length (filter P sets)"
  by (induction sets) auto

lemma comb_mnz_get_distinct:
  assumes "\<forall>s \<in> set sets. distinct (map fst s)"
  shows "dd_get (comb_mnz_fusion sets) i = mnz_score sets i"
proof -
  have 1: "(\<Sum>s\<leftarrow>sets. \<Sum>x\<leftarrow>s. if fst x = i then score (snd x) else 0) =
           (\<Sum>s\<leftarrow>sets. case map_of s i of None \<Rightarrow> 0 | Some r \<Rightarrow> score r)"
    using assms
    by (intro arg_cong [where f = sum_list] map_cong) (simp_all add: distinct_sum_lookup)
  have "(\<Sum>s\<leftarrow>sets. length (filter (\<lambda>x. fst x = i) s)) =
        (\<Sum>s\<leftarrow>sets. if i \<in> fst ` set s then 1 else 0)"
    using assms
    by (intro arg_cong [where f = sum_list] map_cong) (simp_all add: distinct_count_lookup)
  then have 2: "(\<Sum>s\<leftarrow>sets. length (filter (\<lambda>x. fst x = i) s)) =
           length (filter (\<lambda>s. i \<in> fst ` set s) sets)"
    by (simp add: sum_list_indicator)
  show ?thesis
    by (simp add: comb_mnz_get 1 2 mnz_score_def)
qed

lemma fold_dict_set_lookup:
  "map_of (foldl (\<lambda>acc i. dict_set i (g i) acc) acc ids) j =
     (if j \<in> set ids then Some (g j) else map_of acc j)"
  by (induction ids arbitrary: acc) (simp_all add: map_of_dict_set)

lemma fold_dict_set_distinct:
  "distinct (map fst acc) \<Longrightarrow>
   distinct (map fst (foldl (\<lambda>acc i. dict_set i (g i) acc) acc ids))"
  by (induction ids arbitrary: acc) (simp_all add: distinct_dict_set)

lemma calc_final_scores_eq:
  "calc_final_scores f sets =
     foldl (\<lambda>acc i. dict_set i
              (fusion_alpha f * dd_get (reciprocal_rank_fusion f sets) i
               + (1 - fusion_alpha f) * dd_get (comb_mnz_fusion sets) i) acc)
       [] (remdups (map fst (reciprocal_rank_fusion f sets) @ map fst (comb_mnz_fusion sets)))"
  by (simp add: calc_final_scores_def Let_def dd_get_def)

lemma final_lookup:
  "map_of (calc_final_scores f sets) i =
     (if i \<in> all_ids sets
      then Some (fusion_alpha f * dd_get (reciprocal_rank_fusion f sets) i
                 + (1 - fusion_alpha f) * dd_get (comb_mnz_fusion sets) i)
      else None)"
proof -
  have "set (remdups (map fst (reciprocal_rank_fusion f sets) @ map fst (comb_mnz_fusion sets)))
        = all_ids sets"
    using rrf_keys [of f sets] comb_mnz_keys [of sets] by simp
  then show ?thesis
    unfolding calc_final_scores_eq fold_dict_set_lookup by simp
qed

lemma final_distinct: "distinct (map fst (calc_final_scores f sets))"
  unfolding calc_final_scores_eq by (rule fold_dict_set_distinct) simp

lemma dict_update_lookup:
  "distinct (map fst s) \<Longrightarrow>
   map_of (dict_update m s) i = (case map_of s i of Some r \<Rightarrow> Some r | None \<Rightarrow> map_of m i)"
  unfolding dict_update_def
proof (induction s arbitrary: m)
  case Nil
  then show ?case by simp
next
  case (Cons x s)
  obtain j r where x: "x = (j, r)" by (cases x)
  from Cons.prems x have n: "map_of s j = None"
    by (simp add: map_of_eq_None_iff)
  from Cons.prems have d: "distinct (map fst s)" by simp
  show ?case
    using n by (auto simp: x Cons.IH [OF d] map_of_dict_set split: option.splits)
qed

lemma dict_update_keys: "fst ` set (dict_update m s) = fst ` set m \<union> fst ` set s"
  unfolding dict_update_def
proof (induction s arbitrary: m)
  case Nil
  then show ?case by simp
next
  case (Cons x s)
  show ?case by (cases x) (simp add: Cons.IH keys_set_dict_set)
qed

lemma dict_update_distinct:
  "distinct (map fst m) \<Longrightarrow> distinct (map fst (dict_update m s))"
  unfolding dict_update_def
proof (induction s arbitrary: m)
  case Nil
  then show ?case by simp
next
  case (Cons x s)
  show ?case by (cases x) (simp add: Cons.IH Cons.prems distinct_dict_set)
qed

lemma merge_fold_lookup:
  "\<forall>s \<in> set sets. distinct (map fst s) \<Longrightarrow>
   map_of (foldl dict_update m sets) i =
     (case last_seen sets i of Some r \<Rightarrow> Some r | None \<Rightarrow> map_of m i)"
  by (induction sets arbitrary: m) (auto simp: dict_update_lookup split: option.splits)

lemma merge_lookup:
  "\<forall>s \<in> set sets. distinct (map fst s) \<Longrightarrow> map_of (merge_results sets) i = last_seen sets i"
  by (simp add: merge_results_def merge_fold_lookup split: option.splits)

lemma merge_fold_keys:
  "fst ` set (foldl dict_update m sets) = fst ` set m \<union> all_ids sets"
  by (induction sets arbitrary: m) (simp_all add: dict_update_keys all_ids_def Un_assoc)

lemma merge_keys: "fst ` set (merge_results sets) = all_ids sets"
  by (simp add: merge_results_def merge_fold_keys)

lemma merge_fold_distinct:
  "distinct (map fst m) \<Longrightarrow> distinct (map fst (foldl dict_update m sets))"
  by (induction sets arbitrary: m) (simp_all add: dict_update_distinct)

lemma merge_distinct: "distinct (map fst (merge_results sets))"
  by (simp add: merge_results_def merge_fold_distinct)

lemma dict_set_present:
  "distinct (map fst m) \<Longrightarrow> map_of m i = Some r \<Longrightarrow>
   dict_set i v m = map (\<lambda>x. if fst x = i then (i, v) else x) m"
proof (induction m)
  case Nil
  then show ?case by simp
next
  case (Cons y m)
  show ?case
  proof (cases "fst y = i")
    case True
    with Cons.prems(1) have "i \<notin> fst ` set m" by simp
    then have "\<forall>x \<in> set m. fst x \<noteq> i" by blast
    then have "map (\<lambda>x. if fst x = i then (i, v) else x) m = m"
      by (intro map_idI) auto
    with True show ?thesis by (cases y) simp
  next
    case False
    with Cons show ?thesis by (cases y) auto
  qed
qed

lemma set_scores_step:
  assumes "distinct (map fst m)"
  shows "(case map_of m i of None \<Rightarrow> m | Some r \<Rightarrow> dict_set i (r\<lparr>score := s\<rparr>) m) =
         map (\<lambda>x. if fst x = i then (i, (snd x)\<lparr>score := s\<rparr>) else x) m"
proof (cases "map_of m i")
  case None
  then have "\<forall>x \<in> set m. fst x \<noteq> i"
    by (auto simp: map_of_eq_None_iff)
  then have "map (\<lambda>x. if fst x = i then (i, (snd x)\<lparr>score := s\<rparr>) else x) m = m"
    by (intro map_idI) auto
  with None show ?thesis by simp
next
  case (Some r)
  have "map (\<lambda>x. if fst x = i then (i, r\<lparr>score := s\<rparr>) else x) m =
        map (\<lambda>x. if fst x = i then (i, (snd x)\<lparr>score := s\<rparr>) else x) m"
  proof (intro map_cong refl)
    fix x assume x: "x \<in> set m"
    show "(if fst x = i then (i, r\<lparr>score := s\<rparr>) else x) =
          (if fst x = i then (i, (snd x)\<lparr>score := s\<rparr>) else x)"
    proof (cases "fst x = i")
      case True
      from x have "(fst x, snd x) \<in> set m" by simp
      with assms have "map_of m (fst x) = Some (snd x)" by simp
      with Some True show ?thesis by simp
    next
      case False
      then show ?thesis by simp
    qed
  qed
  with Some dict_set_present [OF assms Some] show ?thesis by simp
qed

lemma set_scores_char:
  "distinct (map fst final) \<Longrightarrow> distinct (map fst m) \<Longrightarrow>
   set_scores final m =
     map (\<lambda>x. (fst x, case map_of final (fst x) of
                         None \<Rightarrow> snd x
                       | Some s \<Rightarrow> (snd x)\<lparr>score := s\<rparr>)) m"
  unfolding set_scores_def
proof (induction final arbitrary: m)
  case Nil
  then show ?case by simp
next
  case (Cons p final)
  obtain i s where p: "p = (i, s)" by (cases p)
  let ?m' = "map (\<lambda>x. if fst x = i then (i, (snd x)\<lparr>score := s\<rparr>) else x) m"
  have k: "map fst ?m' = map fst m" by (induction m) auto
  have d: "distinct (map fst ?m')" unfolding k by (rule Cons.prems(2))
  have f: "distinct (map fst final)" using Cons.prems(1) by simp
  have n: "map_of final i = None"
    using Cons.prems(1) p by (simp add: map_of_eq_None_iff)
  have "foldl (\<lambda>m (doc_id, s). case map_of m doc_id of None \<Rightarrow> m
                | Some r \<Rightarrow> dict_set doc_id (r\<lparr>score := s\<rparr>) m) m (p # final) =
        foldl (\<lambda>m (doc_id, s). case map_of m doc_id of None \<Rightarrow> m
                | Some r \<Rightarrow> dict_set doc_id (r\<lparr>score := s\<rparr>) m) ?m' final"
    by (simp add: p set_scores_step [OF Cons.prems(2)])
  also have "\<dots> = map (\<lambda>x. (fst x, case map_of final (fst x) of
                         None \<Rightarrow> snd x
                       | Some s \<Rightarrow> (snd x)\<lparr>score := s\<rparr>)) ?m'"
    by (rule Cons.IH [OF f d])
  also have "\<dots> = map (\<lambda>x. (fst x, case map_of (p # final) (fst x) of
                         None \<Rightarrow> snd x
                       | Some s \<Rightarrow> (snd x)\<lparr>score := s\<rparr>)) m"
    using n by (auto simp: p)
  finally show ?case .
qed

lemma fuse_char:
  "fuse f sets =
     sorted_desc (\<lambda>x. score (snd x))
       (rescored (\<lambda>i. fusion_alpha f * dd_get (reciprocal_rank_fusion f sets) i
                      + (1 - fusion_alpha f) * dd_get (comb_mnz_fusion sets) i)
          (merge_results sets))"
proof -
  have "set_scores (calc_final_scores f sets) (merge_results sets) =
        rescored (\<lambda>i. fusion_alpha f * dd_get (reciprocal_rank_fusion f sets) i
                      + (1 - fusion_alpha f) * dd_get (comb_mnz_fusion sets) i)
          (merge_results sets)"
    unfolding set_scores_char [OF final_distinct merge_distinct] rescored_def
  proof (intro map_cong refl)
    fix x assume "x \<in> set (merge_results sets)"
    then have "fst x \<in> all_ids sets"
      using merge_keys [of sets] by auto
    then show "(fst x, case map_of (calc_final_scores f sets) (fst x) of
                         None \<Rightarrow> snd x
                       | Some s \<Rightarrow> (snd x)\<lparr>score := s\<rparr>) =
               (fst x, (snd x)\<lparr>score := fusion_alpha f * dd_get (reciprocal_rank_fusion f sets) (fst x)
                      + (1 - fusion_alpha f) * dd_get (comb_mnz_fusion sets) (fst x)\<rparr>)"
      by (simp add: final_lookup)
  qed
  then show ?thesis
    by (cases "sets = []") (simp_all add: fuse_def merge_results_def rescored_def sorted_desc_def)
qed

lemma ranking_of_rescored:
  "map fst (sorted_desc (\<lambda>x. score (snd x)) (rescored sc m)) =
   map fst (sorted_desc (\<lambda>x. sc (fst x)) m)"
proof -
  have "sorted_desc (\<lambda>x. score (snd x)) (rescored sc m) =
        map (\<lambda>x. (fst x, (snd x)\<lparr>score := sc (fst x)\<rparr>))
          (sorted_desc (\<lambda>x. score (snd (fst x, (snd x)\<lparr>score := sc (fst x)\<rparr>))) m)"
    unfolding rescored_def by (rule sorted_desc_map [symmetric])
  then show ?thesis by (simp add: comp_def)
qed

lemma distinct_keys_sorted_desc:
  "distinct (map g xs) \<Longrightarrow> distinct (map g (sorted_desc k xs))"
proof -
  assume d: "distinct (map g xs)"
  have "mset (map g (sorted_desc k xs)) = mset (map g xs)" by simp
  from mset_eq_imp_distinct_iff [OF this] d show ?thesis by simp
qed

lemma rescored_keys [simp]: "map fst (rescored sc m) = map fst m"
  by (simp add: rescored_def comp_def)

lemma keys_set_rescored [simp]: "fst ` set (rescored sc m) = fst ` set m"
  by (force simp: rescored_def)

lemma RRFFusion_fields:
  "RRFFusion k0 a0 = Inr f \<Longrightarrow> fusion_k f = k0 \<and> fusion_alpha f = a0 \<and> 1 \<le> k0 \<and> 0 \<le> a0 \<and> a0 \<le> 1"
  by (auto simp: RRFFusion_def split: if_splits)


text \<open>
  C2. \<open>fuse\<close> of the empty list is the empty mapping.  For input sets with distinct
  ids (Python mappings), the result has each id of the input sets once; the record of an
  id is the one of the last input set that has the id, with its score replaced by
  alpha * rrf + (1 - alpha) * combMNZ, where rrf is the sum over the sets that have the
  id of 1 / (k + rank + 1), rank counted from 0, and combMNZ is the sum of the id's
  scores times the number of sets that have it; the result is ordered by score, greatest
  first.  The score map of \<open>calc_final_scores\<close> has exactly these values on the ids seen.
\<close>

theorem fuse_scores_and_order:
  assumes "RRFFusion k0 a0 = Inr f" and "\<forall>s \<in> set sets. distinct (map fst s)"
  shows "fuse f [] = [] \<and>
         distinct (map fst (fuse f sets)) \<and>
         set (map fst (fuse f sets)) = all_ids sets \<and>
         (\<forall>(i, r) \<in> set (fuse f sets).
            \<exists>r0. last_seen sets i = Some r0 \<and>
                 r = r0\<lparr>score := a0 * rrf_score f sets i + (1 - a0) * mnz_score sets i\<rparr>) \<and>
         sorted_wrt (\<lambda>x y. score (snd x) \<ge> score (snd y)) (fuse f sets) \<and>
         (\<forall>i. map_of (calc_final_scores f sets) i =
                (if i \<in> all_ids sets
                 then Some (a0 * rrf_score f sets i + (1 - a0) * mnz_score sets i)
                 else None))"
proof -
  have a: "fusion_alpha f = a0" using RRFFusion_fields [OF assms(1)] by simp
  let ?F = "\<lambda>i. a0 * rrf_score f sets i + (1 - a0) * mnz_score sets i"
  have c: "fuse f sets = sorted_desc (\<lambda>x. score (snd x)) (rescored ?F (merge_results sets))"
    by (simp add: fuse_char a rrf_get_distinct [OF assms(2)] comb_mnz_get_distinct [OF assms(2)])
  have 1: "fuse f [] = []" by (simp add: fuse_def)
  have 2: "distinct (map fst (fuse f sets))"
    unfolding c by (rule distinct_keys_sorted_desc) (simp add: merge_distinct)
  have 3: "set (map fst (fuse f sets)) = all_ids sets"
    unfolding c by (simp add: merge_keys)
  have 4: "\<exists>r0. last_seen sets i = Some r0 \<and> r = r0\<lparr>score := ?F i\<rparr>"
    if "(i, r) \<in> set (fuse f sets)" for i r
  proof -
    from that obtain x where x: "x \<in> set (merge_results sets)" "i = fst x" "r = (snd x)\<lparr>score := ?F (fst x)\<rparr>"
      unfolding c by (auto simp: rescored_def)
    then have "(fst x, snd x) \<in> set (merge_results sets)" by simp
    then have "map_of (merge_results sets) (fst x) = Some (snd x)"
      using merge_distinct [of sets] by simp
    then have "last_seen sets i = Some (snd x)"
      using x(2) by (simp add: merge_lookup [OF assms(2)])
    with x show ?thesis by simp
  qed
  have 5: "sorted_wrt (\<lambda>x y. score (snd x) \<ge> score (snd y)) (fuse f sets)"
    unfolding c by (rule sorted_desc_sorted)
  have 6: "map_of (calc_final_scores f sets) i =
                (if i \<in> all_ids sets then Some (?F i) else None)" for i
    by (simp add: final_lookup a rrf_get_distinct [OF assms(2)] comb_mnz_get_distinct [OF assms(2)])
  from 1 2 3 4 5 6 show ?thesis by blast
qed

lemma two_sets_merged:
  "merge_results two_sets =
     [(''L01/V1/1'', frame ''V1'' ''1'' (3/10) 1), (''L01/V2/1'', frame ''V2'' ''1'' (3/2) 1)]"
  by (simp add: two_sets_def merge_results_def dict_update_def)

lemma two_sets_rrf:
  "reciprocal_rank_fusion \<lparr>fusion_k = 60, fusion_alpha = a\<rparr> two_sets =
     [(''L01/V1/1'', 2/61), (''L01/V2/1'', 1/62)]"
  by (simp add: two_sets_def reciprocal_rank_fusion_def dd_add_def)

lemma two_sets_mnz:
  "comb_mnz_fusion two_sets = [(''L01/V1/1'', 1), (''L01/V2/1'', 3/2)]"
  by (simp add: two_sets_def comb_mnz_fusion_def mnz_step_def dd_add_def dd_incr_def frame_def)


theorem fuse_scores_and_order_witness:
  "RRFFusion 60 (1/10) = Inr default_fusion \<and>
   distinct (map fst (two_sets ! 0)) \<and> distinct (map fst (two_sets ! 1)) \<and>
   fuse default_fusion [] = [] \<and>
   distinct (map fst (fuse default_fusion two_sets)) \<and>
   sorted_wrt (\<lambda>x y. score (snd x) \<ge> score (snd y)) (fuse default_fusion two_sets) \<and>
   map_of (calc_final_scores default_fusion two_sets) ''L01/V1/1'' = Some (551/610)"
proof -
  have c: "RRFFusion 60 (1/10) = Inr default_fusion"
    by (simp add: RRFFusion_def default_fusion_def)
  have d: "\<forall>s \<in> set two_sets. distinct (map fst s)"
    by (simp add: two_sets_def)
  have d': "distinct (map fst (two_sets ! 0))" "distinct (map fst (two_sets ! 1))"
    by (simp_all add: two_sets_def)
  have m: "''L01/V1/1'' \<in> all_ids two_sets"
    by (simp add: all_ids_def two_sets_def)
  have r: "rrf_score default_fusion two_sets ''L01/V1/1'' = 2/61"
    by (simp add: rrf_score_def default_fusion_def two_sets_def)
  have z: "mnz_score two_sets ''L01/V1/1'' = 1"
    by (simp add: mnz_score_def two_sets_def frame_def)
  from fuse_scores_and_order [OF c d] c d' m r z show ?thesis by simp
qed

end
